theory Spec2Isabelle
  imports Main "HOL-Library.Char_ord"
begin

section \<open>Python strings and integers\<close>

text \<open>
  The program is \<^verbatim>\<open>src/bot.py\<close>. Its template engine is the function
  \<^verbatim>\<open>interpret_template_string\<close>; the index filter is the \<^verbatim>\<open>eval\<close> loop of the commands
  \<^verbatim>\<open>remove_channels\<close> and \<^verbatim>\<open>preview_template\<close>.

  A Python \<^verbatim>\<open>str\<close> is modelled as a \<^typ>\<open>string\<close> whose characters are read as the code
  points 0..255; the character classes below are the ones CPython 3 uses on that range.
  Text with a character above U+00FF is outside the model: there the digit class of \<^verbatim>\<open>re\<close>
  and \<^verbatim>\<open>int()\<close> also accept the decimal digits of other scripts, which this range
  does not have.
  Python integers are \<^typ>\<open>int\<close>. The interpreter's optional limit on the number of digits
  of an integer conversion and the exhaustion of memory are outside the model.
  Every exception that can leave the modelled code is a value of \<open>pyerr\<close>.
\<close>

datatype pyerr = ValueError | OverflowError | NameError | TypeError | ZeroDivisionError

definition in_range :: "char \<Rightarrow> char \<Rightarrow> char \<Rightarrow> bool" where
  "in_range lo hi c = (lo \<le> c \<and> c \<le> hi)"

definition is_space :: "char \<Rightarrow> bool" where
  \<comment> \<open>\<^verbatim>\<open>\s\<close> of \<^verbatim>\<open>re\<close> and the characters removed by \<^verbatim>\<open>str.strip()\<close>\<close>
  "is_space c = (in_range (CHR 0x09) (CHR 0x0D) c \<or> in_range (CHR 0x1C) (CHR 0x20) c
                 \<or> c = CHR 0x85 \<or> c = CHR 0xA0)"

definition is_digit :: "char \<Rightarrow> bool" where
  \<comment> \<open>\<^verbatim>\<open>\d\<close> of \<^verbatim>\<open>re\<close> on the modelled range: the code points 0..255 hold no decimal digit
      but \<^verbatim>\<open>0\<close> to \<^verbatim>\<open>9\<close>\<close>
  "is_digit c = in_range (CHR ''0'') (CHR ''9'') c"

definition is_upper :: "char \<Rightarrow> bool" where
  "is_upper c = (in_range (CHR ''A'') (CHR ''Z'') c \<or> in_range (CHR 0xC0) (CHR 0xD6) c
                 \<or> in_range (CHR 0xD8) (CHR 0xDE) c)"

definition is_lower :: "char \<Rightarrow> bool" where
  "is_lower c = (in_range (CHR ''a'') (CHR ''z'') c \<or> c = CHR 0xAA \<or> c = CHR 0xB5 \<or> c = CHR 0xBA
                 \<or> in_range (CHR 0xDF) (CHR 0xF6) c \<or> in_range (CHR 0xF8) (CHR 0xFF) c)"

definition py_isdigit :: "string \<Rightarrow> bool" where
  \<comment> \<open>\<^verbatim>\<open>str.isdigit()\<close>: non-empty, every character a digit (superscripts 1, 2, 3 included)\<close>
  "py_isdigit s = (s \<noteq> [] \<and> (\<forall>c \<in> set s. is_digit c \<or> c = CHR 0xB2 \<or> c = CHR 0xB3 \<or> c = CHR 0xB9))"

definition py_isalpha :: "string \<Rightarrow> bool" where
  "py_isalpha s = (s \<noteq> [] \<and> (\<forall>c \<in> set s. is_upper c \<or> is_lower c))"

definition py_isupper :: "string \<Rightarrow> bool" where
  \<comment> \<open>\<^verbatim>\<open>str.isupper()\<close>: at least one cased character and no lower-case one\<close>
  "py_isupper s = ((\<exists>c \<in> set s. is_upper c) \<and> (\<forall>c \<in> set s. \<not> is_lower c))"

definition py_strip :: "string \<Rightarrow> string" where
  "py_strip s = rev (dropWhile is_space (rev (dropWhile is_space s)))"

definition startswith :: "string \<Rightarrow> string \<Rightarrow> bool" where
  "startswith s w = (take (length w) s = w)"

definition endswith :: "string \<Rightarrow> string \<Rightarrow> bool" where
  "endswith s w = (length w \<le> length s \<and> drop (length s - length w) s = w)"

function split_from :: "string \<Rightarrow> string \<Rightarrow> string \<Rightarrow> string list" where
  "split_from sep cur s =
     (if s = [] then [cur]
      else if sep \<noteq> [] \<and> startswith s sep then cur # split_from sep [] (drop (length sep) s)
      else split_from sep (cur @ [hd s]) (tl s))"
  by pat_completeness auto
termination
  by (relation "measure (\<lambda>(sep, cur, s). length s)") auto

declare split_from.simps [simp del]

definition py_split :: "string \<Rightarrow> string \<Rightarrow> string list" where
  \<comment> \<open>\<^verbatim>\<open>s.split(sep)\<close> for a non-empty separator\<close>
  "py_split s sep = split_from sep [] s"

fun split_once :: "string \<Rightarrow> string \<Rightarrow> string \<Rightarrow> string list" where
  \<comment> \<open>\<^verbatim>\<open>s.split(sep, 1)\<close>\<close>
  "split_once sep cur [] = [cur]"
| "split_once sep cur (x # xs) =
     (if sep \<noteq> [] \<and> startswith (x # xs) sep then [cur, drop (length sep) (x # xs)]
      else split_once sep (cur @ [x]) xs)"

fun find_from :: "nat \<Rightarrow> string \<Rightarrow> string \<Rightarrow> nat option" where
  "find_from k sub [] = (if sub = [] then Some k else None)"
| "find_from k sub (x # xs) =
     (if startswith (x # xs) sub then Some k else find_from (Suc k) sub xs)"

definition py_index :: "string \<Rightarrow> string \<Rightarrow> pyerr + nat" where
  \<comment> \<open>\<^verbatim>\<open>s.index(sub)\<close>: position of the first occurrence of the substring\<close>
  "py_index s sub = (case find_from 0 sub s of None \<Rightarrow> Inl ValueError | Some k \<Rightarrow> Inr k)"

fun every_nth :: "nat \<Rightarrow> nat \<Rightarrow> 'a list \<Rightarrow> 'a list" where
  "every_nth step k [] = []"
| "every_nth step k (x # xs) =
     (if k = 0 then x # every_nth step (step - 1) xs else every_nth step (k - 1) xs)"

definition py_slice :: "'a list \<Rightarrow> nat \<Rightarrow> nat \<Rightarrow> nat \<Rightarrow> pyerr + 'a list" where
  \<comment> \<open>\<^verbatim>\<open>s[lo:hi:step]\<close> for non-negative bounds\<close>
  "py_slice s lo hi step =
     (if step = 0 then Inl ValueError else Inr (every_nth step 0 (drop lo (take hi s))))"

definition digit_val :: "char \<Rightarrow> nat" where
  "digit_val c = of_char c - 48"

definition digits_val :: "string \<Rightarrow> nat" where
  "digits_val s = foldl (\<lambda>n c. 10 * n + digit_val c) 0 s"

definition int_space :: "char \<Rightarrow> bool" where
  \<comment> \<open>the white space \<^verbatim>\<open>int()\<close> accepts around a number\<close>
  "int_space c = (in_range (CHR 0x09) (CHR 0x0D) c \<or> c = CHR '' '' \<or> c = CHR 0x85 \<or> c = CHR 0xA0)"

fun int_body :: "string \<Rightarrow> bool" where
  \<comment> \<open>digits, single underscores allowed between two digits\<close>
  "int_body [] = False"
| "int_body [c] = is_digit c"
| "int_body (c # d # cs) =
     (is_digit c \<and> (if d = CHR ''_'' then int_body cs else int_body (d # cs)))"

definition py_int :: "string \<Rightarrow> pyerr + int" where
  \<comment> \<open>\<^verbatim>\<open>int(s)\<close> on the modelled range, without the limit on the number of digits\<close>
  "py_int s =
     (let t = rev (dropWhile int_space (rev (dropWhile int_space s)));
          signed = (t \<noteq> [] \<and> (hd t = CHR ''+'' \<or> hd t = CHR ''-''));
          u = (if signed then tl t else t);
          n = int (digits_val (filter (\<lambda>c. c \<noteq> CHR ''_'') u))
      in if int_body u then Inr (if signed \<and> hd t = CHR ''-'' then - n else n)
         else Inl ValueError)"

definition digit_char :: "nat \<Rightarrow> char" where
  "digit_char k = ''0123456789'' ! k"

fun str_nat :: "nat \<Rightarrow> string" where
  "str_nat n = (if n < 10 then [digit_char n] else str_nat (n div 10) @ [digit_char (n mod 10)])"

declare str_nat.simps [simp del]

definition py_str :: "int \<Rightarrow> string" where
  \<comment> \<open>\<^verbatim>\<open>str(i)\<close>\<close>
  "py_str i = (if i < 0 then CHR ''-'' # str_nat (nat (- i)) else str_nat (nat i))"

definition zfill :: "nat \<Rightarrow> string \<Rightarrow> string" where
  \<comment> \<open>\<^verbatim>\<open>s.zfill(width)\<close>: zeros go after a leading sign\<close>
  "zfill width s =
     (if s \<noteq> [] \<and> (hd s = CHR ''+'' \<or> hd s = CHR ''-'')
      then hd s # replicate (width - length s) (CHR ''0'') @ tl s
      else replicate (width - length s) (CHR ''0'') @ s)"

definition py_range :: "int \<Rightarrow> int \<Rightarrow> int \<Rightarrow> pyerr + int list" where
  \<comment> \<open>\<^verbatim>\<open>range(lo, hi, step)\<close>, as the list of its elements\<close>
  "py_range lo hi step =
     (if step = 0 then Inl ValueError
      else if 0 < step then Inr (map (\<lambda>k. lo + int k * step) [0..<nat ((hi - lo + step - 1) div step)])
      else Inr (map (\<lambda>k. lo + int k * step) [0..<nat ((lo - hi - step - 1) div (- step))]))"

section \<open>Regular expressions of the \<^verbatim>\<open>re\<close> module\<close>

text \<open>
  The patterns of the program use literals, character classes, greedy and lazy repetition of
  a class, an optional part, alternatives (inside \<^verbatim>\<open>strptime\<close>), groups and \<^verbatim>\<open>$\<close>.
  \<open>ms r (g, s)\<close> lists every way in which \<open>r\<close> matches a prefix of \<open>s\<close>, in the order in which the
  backtracking matcher of \<^verbatim>\<open>re\<close> tries them: each entry is the groups captured and the text
  left. The match Python reports is the first entry.
\<close>

datatype rx =
    Lit string
  | Cls "char \<Rightarrow> bool"
  | Seq rx rx
  | Alt rx rx
  | Opt rx
  | Star "char \<Rightarrow> bool"
  | Plus "char \<Rightarrow> bool"
  | StarLazy "char \<Rightarrow> bool"
  | Grp nat rx
  | Eol

type_synonym groups = "(nat \<times> string) list"

fun ms :: "rx \<Rightarrow> groups \<times> string \<Rightarrow> (groups \<times> string) list" where
  "ms (Lit w) (g, s) = (if startswith s w then [(g, drop (length w) s)] else [])"
| "ms (Cls p) (g, s) = (case s of [] \<Rightarrow> [] | x # xs \<Rightarrow> if p x then [(g, xs)] else [])"
| "ms (Seq a b) st = concat (map (ms b) (ms a st))"
| "ms (Alt a b) st = ms a st @ ms b st"
| "ms (Opt a) st = ms a st @ [st]"
| "ms (Star p) (g, s) = map (\<lambda>k. (g, drop k s)) (rev [0..<Suc (length (takeWhile p s))])"
| "ms (Plus p) (g, s) = map (\<lambda>k. (g, drop k s)) (rev [1..<Suc (length (takeWhile p s))])"
| "ms (StarLazy p) (g, s) = map (\<lambda>k. (g, drop k s)) [0..<Suc (length (takeWhile p s))]"
| "ms (Grp n a) (g, s) =
     map (\<lambda>(g', r). ((n, take (length s - length r) s) # g', r)) (ms a (g, s))"
| "ms Eol (g, s) = (if s = [] \<or> s = [CHR 0x0A] then [(g, s)] else [])"

fun seqs :: "rx list \<Rightarrow> rx" where
  "seqs [] = Lit []"
| "seqs [r] = r"
| "seqs (r # rs) = Seq r (seqs rs)"

definition group :: "groups \<Rightarrow> nat \<Rightarrow> string option" where
  \<comment> \<open>\<^verbatim>\<open>m.group(n)\<close>; \<open>None\<close> when the group took no part in the match\<close>
  "group g n = map_of g n"

definition group_text :: "groups \<Rightarrow> nat \<Rightarrow> string" where
  \<comment> \<open>a group that every match of the pattern sets\<close>
  "group_text g n = (case map_of g n of None \<Rightarrow> [] | Some t \<Rightarrow> t)"

definition first_match :: "rx \<Rightarrow> groups \<times> string \<Rightarrow> (groups \<times> string) option" where
  "first_match r st = (case ms r st of [] \<Rightarrow> None | m # _ \<Rightarrow> Some m)"

definition re_match :: "rx \<Rightarrow> string \<Rightarrow> (groups \<times> string) option" where
  \<comment> \<open>\<^verbatim>\<open>re.match\<close>: the groups and the text after the match\<close>
  "re_match r s = first_match r ([], s)"

fun re_search :: "rx \<Rightarrow> string \<Rightarrow> (string \<times> groups \<times> string) option" where
  \<comment> \<open>\<^verbatim>\<open>re.search\<close>: the text before the leftmost match, its groups, the text after it\<close>
  "re_search r [] = (case ms r ([], []) of [] \<Rightarrow> None | (g, rest) # _ \<Rightarrow> Some ([], g, rest))"
| "re_search r (x # xs) =
     (case ms r ([], x # xs) of
        (g, rest) # _ \<Rightarrow> Some ([], g, rest)
      | [] \<Rightarrow> (case re_search r xs of None \<Rightarrow> None
               | Some (before, g, rest) \<Rightarrow> Some (x # before, g, rest)))"

function re_findall :: "rx \<Rightarrow> string \<Rightarrow> string list" where
  \<comment> \<open>\<^verbatim>\<open>re.findall\<close> for a pattern with one group that never matches the empty text\<close>
  "re_findall r s =
     (case re_search r s of None \<Rightarrow> []
      | Some (before, g, rest) \<Rightarrow>
          if length rest < length s then group_text g 1 # re_findall r rest
          else [group_text g 1])"
  by pat_completeness auto
termination
  by (relation "measure (\<lambda>(r, s). length s)") auto

declare re_findall.simps [simp del]

definition re_sub_first :: "rx \<Rightarrow> string \<Rightarrow> string \<Rightarrow> string" where
  \<comment> \<open>\<^verbatim>\<open>re.sub(pattern, repl, s, count=1)\<close> for a replacement without backslashes\<close>
  "re_sub_first r repl s =
     (case re_search r s of None \<Rightarrow> s | Some (before, g, rest) \<Rightarrow> before @ repl @ rest)"

definition dot :: "char \<Rightarrow> bool" where
  \<comment> \<open>\<^verbatim>\<open>.\<close>: any character but the newline\<close>
  "dot c = (c \<noteq> CHR 0x0A)"

definition m0_rx :: rx where
  \<comment> \<open>\<^verbatim>\<open>\[\s*(\d+)\.\.\.(\d+)(?::(\d+))?\s*\]\<close>\<close>
  "m0_rx = seqs [Lit ''['', Star is_space, Grp 1 (Plus is_digit), Lit ''...'',
                 Grp 2 (Plus is_digit), Opt (seqs [Lit '':'', Grp 3 (Plus is_digit)]),
                 Star is_space, Lit '']'']"

definition prefix_char :: "char \<Rightarrow> bool" where
  \<comment> \<open>\<^verbatim>\<open>[^,\]]\<close>\<close>
  "prefix_char c = (c \<noteq> CHR '','' \<and> c \<noteq> CHR '']'')"

definition bound_char :: "char \<Rightarrow> bool" where
  \<comment> \<open>\<^verbatim>\<open>[0-9A-Za-z:]\<close>\<close>
  "bound_char c = (in_range (CHR ''0'') (CHR ''9'') c \<or> in_range (CHR ''A'') (CHR ''Z'') c
                   \<or> in_range (CHR ''a'') (CHR ''z'') c \<or> c = CHR '':'')"

definition m1_rx :: rx where
  \<comment> \<open>\<^verbatim>\<open>\[([^,\]]+),\s*([0-9A-Za-z:]+)\.\.\.([0-9A-Za-z:]+)(?::(\d+))?\]\<close>\<close>
  "m1_rx = seqs [Lit ''['', Grp 1 (Plus prefix_char), Lit '','', Star is_space,
                 Grp 2 (Plus bound_char), Lit ''...'', Grp 3 (Plus bound_char),
                 Opt (seqs [Lit '':'', Grp 4 (Plus is_digit)]), Lit '']'']"

definition brace_group_rx :: rx where
  \<comment> \<open>\<^verbatim>\<open>\{(.*?)\}\<close>\<close>
  "brace_group_rx = seqs [Lit ''{'', Grp 1 (StarLazy dot), Lit ''}'']"

definition brace_rx :: rx where
  \<comment> \<open>\<^verbatim>\<open>\{.*?\}\<close>\<close>
  "brace_rx = seqs [Lit ''{'', StarLazy dot, Lit ''}'']"

section \<open>Times of day\<close>

text \<open>
  \<^verbatim>\<open>datetime.strptime(s, "%H:%M")\<close> matches the text with the pattern
  \<^verbatim>\<open>(?P<H>2[0-3]|[0-1]\d|\d):(?P<M>[0-5]\d|\d)\<close> from its start, and rejects a text that the
  match does not cover to its end. The date is 1 January 1900, so a \<^verbatim>\<open>datetime\<close> is the
  number of minutes since 1900-01-01 00:00; the type ends with the year 9999 and starts
  with the year 1.
\<close>

definition time_rx :: rx where
  "time_rx = seqs [Grp 1 (Alt (Seq (Lit ''2'') (Cls (in_range (CHR ''0'') (CHR ''3''))))
                         (Alt (Seq (Cls (in_range (CHR ''0'') (CHR ''1''))) (Cls is_digit))
                              (Cls is_digit))),
                   Lit '':'',
                   Grp 2 (Alt (Seq (Cls (in_range (CHR ''0'') (CHR ''5''))) (Cls is_digit))
                              (Cls is_digit))]"

definition strptime :: "string \<Rightarrow> pyerr + int" where
  "strptime s =
     (case re_match time_rx s of
        None \<Rightarrow> Inl ValueError
      | Some (g, rest) \<Rightarrow>
          if rest \<noteq> [] then Inl ValueError
          else Inr (int (digits_val (group_text g 1)) * 60 + int (digits_val (group_text g 2))))"

definition two_digits :: "nat \<Rightarrow> string" where
  "two_digits n = zfill 2 (str_nat n)"

definition strftime :: "int \<Rightarrow> string" where
  \<comment> \<open>\<^verbatim>\<open>t.strftime('%H:%M')\<close>\<close>
  "strftime t = two_digits (nat ((t div 60) mod 24)) @ '':'' @ two_digits (nat (t mod 60))"

definition datetime_min :: int where
  "datetime_min = - (693595 * 1440)"

definition datetime_end :: int where
  "datetime_end = 71003136 * 60"

partial_function (option)
  time_loop :: "string \<Rightarrow> int \<Rightarrow> int \<Rightarrow> int \<Rightarrow> string list \<Rightarrow> (pyerr + string list) option"
where [code]:
  \<comment> \<open>\<^verbatim>\<open>while s <= e: out.append(prefix + s.strftime('%H:%M')); s += timedelta(hours=step)\<close>\<close>
  "time_loop prefix step e s out =
     (if s \<le> e then
        (if s + 60 * step < datetime_min \<or> datetime_end \<le> s + 60 * step
         then Some (Inl OverflowError)
         else time_loop prefix step e (s + 60 * step) (out @ [prefix @ strftime s]))
      else Some (Inr out))"

section \<open>The template engine\<close>

definition ascii_uppercase :: string where
  "ascii_uppercase = ''ABCDEFGHIJKLMNOPQRSTUVWXYZ''"

definition ascii_lowercase :: string where
  "ascii_lowercase = ''abcdefghijklmnopqrstuvwxyz''"

definition step_of :: "string option \<Rightarrow> pyerr + int" where
  \<comment> \<open>\<^verbatim>\<open>int(raw_step) if raw_step else 1\<close>\<close>
  "step_of raw_step =
     (case raw_step of None \<Rightarrow> Inr 1 | Some t \<Rightarrow> if t = [] then Inr 1 else py_int t)"

definition numeric_range :: "string \<Rightarrow> string \<Rightarrow> string \<Rightarrow> int \<Rightarrow> pyerr + string list" where
  \<comment> \<open>lines 40, 42, 43 and 54 to 56: \<^verbatim>\<open>[prefix + str(i).zfill(width) for i in range(start, end + 1, step)]\<close>\<close>
  "numeric_range prefix raw_s raw_e step =
     (case py_int raw_s of Inl err \<Rightarrow> Inl err | Inr start \<Rightarrow>
       (case py_int raw_e of Inl err \<Rightarrow> Inl err | Inr end' \<Rightarrow>
         (case py_range start (end' + 1) step of Inl err \<Rightarrow> Inl err | Inr ns \<Rightarrow>
            Inr (map (\<lambda>i. prefix @ zfill (max (length raw_s) (length raw_e)) (py_str i)) ns))))"

definition bare_range :: "string \<Rightarrow> string \<Rightarrow> string option \<Rightarrow> pyerr + string list" where
  \<comment> \<open>lines 39 to 43; \<^verbatim>\<open>int(raw_s)\<close> and \<^verbatim>\<open>int(raw_e)\<close> cannot fail on digits, so that the
      place of \<^verbatim>\<open>int(raw_step)\<close> among them cannot be seen\<close>
  "bare_range raw_s raw_e raw_step =
     (case step_of raw_step of Inl err \<Rightarrow> Inl err
      | Inr step \<Rightarrow> numeric_range [] raw_s raw_e step)"

definition time_range :: "string \<Rightarrow> string \<Rightarrow> string \<Rightarrow> int \<Rightarrow> (pyerr + string list) option" where
  \<comment> \<open>lines 60 to 66\<close>
  "time_range prefix raw_s raw_e step =
     (case strptime raw_s of Inl err \<Rightarrow> Some (Inl err) | Inr s \<Rightarrow>
       (case strptime raw_e of Inl err \<Rightarrow> Some (Inl err) | Inr e \<Rightarrow>
          time_loop prefix step e s []))"

definition alphabet_of :: "string \<Rightarrow> string" where
  \<comment> \<open>\<^verbatim>\<open>string.ascii_uppercase if a.isupper() else string.ascii_lowercase\<close>\<close>
  "alphabet_of a = (if py_isupper a then ascii_uppercase else ascii_lowercase)"

definition letter_range :: "string \<Rightarrow> string \<Rightarrow> string \<Rightarrow> int \<Rightarrow> pyerr + string list" where
  \<comment> \<open>lines 70 to 72; the step is the value of a \<^verbatim>\<open>\d+\<close> group or 1, never negative\<close>
  "letter_range prefix raw_s raw_e step =
     (case py_index (alphabet_of raw_s) raw_s of Inl err \<Rightarrow> Inl err | Inr i \<Rightarrow>
       (case py_index (alphabet_of raw_s) raw_e of Inl err \<Rightarrow> Inl err | Inr j \<Rightarrow>
         (case py_slice (alphabet_of raw_s) i (j + 1) (nat step) of Inl err \<Rightarrow> Inl err
          | Inr segment \<Rightarrow> Inr (map (\<lambda>c. prefix @ [c]) segment))))"

definition axis :: "string \<Rightarrow> pyerr + string list" where
  \<comment> \<open>lines 79 to 84: the values of one brace group; unpacking \<^verbatim>\<open>a, b\<close> needs two parts\<close>
  "axis expr =
     (case py_split expr ''...'' of
        [a, b] \<Rightarrow>
          if py_isdigit a then
            (case py_int a of Inl err \<Rightarrow> Inl err | Inr lo \<Rightarrow>
              (case py_int b of Inl err \<Rightarrow> Inl err | Inr hi \<Rightarrow>
                (case py_range lo (hi + 1) 1 of Inl err \<Rightarrow> Inl err
                 | Inr ns \<Rightarrow> Inr (map py_str ns))))
          else
            (case py_index (alphabet_of a) a of Inl err \<Rightarrow> Inl err | Inr i \<Rightarrow>
              (case py_index (alphabet_of a) b of Inl err \<Rightarrow> Inl err | Inr j \<Rightarrow>
                (case py_slice (alphabet_of a) i (j + 1) 1 of Inl err \<Rightarrow> Inl err
                 | Inr segment \<Rightarrow> Inr (map (\<lambda>c. [c]) segment))))
      | _ \<Rightarrow> Inl ValueError)"

fun axes :: "string list \<Rightarrow> pyerr + string list list" where
  \<comment> \<open>the loop of line 78: the first group that fails ends it\<close>
  "axes [] = Inr []"
| "axes (expr # exprs) =
     (case axis expr of Inl err \<Rightarrow> Inl err | Inr l \<Rightarrow>
       (case axes exprs of Inl err \<Rightarrow> Inl err | Inr ls \<Rightarrow> Inr (l # ls)))"

definition fill :: "string \<Rightarrow> string list \<Rightarrow> string" where
  \<comment> \<open>lines 87 to 89: each value replaces the first brace group that is left\<close>
  "fill format_str combo = foldl (\<lambda>tmp v. re_sub_first brace_rx v tmp) format_str combo"

definition grid :: "string \<Rightarrow> string list \<Rightarrow> pyerr + string list" where
  \<comment> \<open>lines 77 to 91; \<^verbatim>\<open>itertools.product\<close> is \<^const>\<open>product_lists\<close>\<close>
  "grid format_str braces =
     (case axes braces of Inl err \<Rightarrow> Inl err
      | Inr ls \<Rightarrow> Inr (map (fill format_str) (product_lists ls)))"

definition later_matchers :: "string \<Rightarrow> pyerr + string list" where
  \<comment> \<open>lines 75 to 101: grid, literal list, fallback\<close>
  "later_matchers format_str =
     (let braces = re_findall brace_group_rx format_str in
      if braces \<noteq> [] then grid format_str braces
      else if startswith format_str ''['' \<and> endswith format_str '']''
              \<and> 1 < length (py_split (butlast (tl format_str)) '','')
           then Inr (map py_strip (py_split (butlast (tl format_str)) '',''))
      else Inr [format_str])"

definition interpret_template_string :: "string \<Rightarrow> (pyerr + string list) option" where
  \<comment> \<open>\<open>None\<close>: the call does not return\<close>
  "interpret_template_string format_str =
     (case re_match m0_rx format_str of
        Some (g, _) \<Rightarrow> Some (bare_range (group_text g 1) (group_text g 2) (group g 3))
      | None \<Rightarrow>
         (case re_match m1_rx format_str of
            Some (g, _) \<Rightarrow>
              (let prefix = py_strip (group_text g 1);
                   raw_s = group_text g 2;
                   raw_e = group_text g 3
               in (case step_of (group g 4) of
                     Inl err \<Rightarrow> Some (Inl err)
                   | Inr step \<Rightarrow>
                       if py_isdigit raw_s then Some (numeric_range prefix raw_s raw_e step)
                       else if CHR '':'' \<in> set raw_s then time_range prefix raw_s raw_e step
                       else if length raw_s = 1 \<and> py_isalpha raw_s
                            then Some (letter_range prefix raw_s raw_e step)
                       else Some (later_matchers format_str)))
          | None \<Rightarrow> Some (later_matchers format_str)))"

section \<open>The built-in \<^verbatim>\<open>eval\<close>\<close>

text \<open>
  Both commands filter with \<^verbatim>\<open>eval(condition)\<close>, which evaluates any Python expression in
  the namespace of the calling function: its local variables, then the globals of the
  module and the built-ins. The filter loops below take the evaluator as a parameter.
  A namespace gives each name a modelled value, nothing, or an object that is not
  modelled (\<open>Opaque\<close>).

  \<open>py_eval\<close> is \<^verbatim>\<open>eval\<close> on a fragment of Python: decimal integers, names, \<^verbatim>\<open>True\<close>,
  \<^verbatim>\<open>False\<close>, \<^verbatim>\<open>None\<close>, parentheses, unary \<^verbatim>\<open>+ -\<close>, binary \<^verbatim>\<open>+ - * // %\<close>, one comparison
  \<^verbatim>\<open>== != < <= > >=\<close>, and \<^verbatim>\<open>not\<close>, \<^verbatim>\<open>and\<close>, \<^verbatim>\<open>or\<close>, on integers, booleans, \<^verbatim>\<open>None\<close> and (for
  equality and truth) strings. On every other text, and where an operation of the
  fragment meets a value that is not modelled, it hands over to its first argument, which
  stands for the rest of \<^verbatim>\<open>eval\<close>.
\<close>

datatype pyval = VInt int | VBool bool | VStr string | VNone

datatype lookup = Unbound | Bound pyval | Opaque

type_synonym namespace = "string \<Rightarrow> lookup"

type_synonym evaluator = "string \<Rightarrow> namespace \<Rightarrow> pyerr + pyval"

datatype token = TNum nat | TName string | TSym string

datatype binop = Add | Sub | Mul | FloorDiv | Mod

datatype cmpop = Eq | Ne | Lt | Le | Gt | Ge

datatype expr =
    Num int
  | Name string
  | ConstBool bool
  | ConstNone
  | Neg expr
  | Pos expr
  | Not expr
  | Bin binop expr expr
  | Cmp cmpop expr expr
  | And expr expr
  | Or expr expr

definition ident_start :: "char \<Rightarrow> bool" where
  "ident_start c = (in_range (CHR ''A'') (CHR ''Z'') c \<or> in_range (CHR ''a'') (CHR ''z'') c
                    \<or> c = CHR ''_'')"

definition ident_char :: "char \<Rightarrow> bool" where
  "ident_char c = (ident_start c \<or> is_digit c)"

definition number_ok :: "string \<Rightarrow> bool" where
  \<comment> \<open>a decimal literal has no leading zero unless it is all zeros\<close>
  "number_ok ds = (hd ds \<noteq> CHR ''0'' \<or> (\<forall>c \<in> set ds. c = CHR ''0''))"

function tokenize :: "string \<Rightarrow> token list option" where
  "tokenize [] = Some []"
| "tokenize (c # cs) =
     (if c = CHR '' '' then tokenize cs
      else if is_digit c then
        (let ds = takeWhile is_digit (c # cs); rest = dropWhile is_digit cs in
         if (rest \<noteq> [] \<and> (ident_char (hd rest) \<or> hd rest = CHR ''.'')) \<or> \<not> number_ok ds then None
         else map_option (Cons (TNum (digits_val ds))) (tokenize rest))
      else if ident_start c then
        map_option (Cons (TName (takeWhile ident_char (c # cs)))) (tokenize (dropWhile ident_char cs))
      else if take 2 (c # cs) \<in> set [''//'', ''=='', ''!='', ''<='', ''>='']
        then map_option (Cons (TSym (take 2 (c # cs)))) (tokenize (drop 1 cs))
      else if c \<in> set ''+-*%()<>'' then map_option (Cons (TSym [c])) (tokenize cs)
      else None)"
  by pat_completeness auto
termination
  by (relation "measure length") (auto simp: length_dropWhile_le less_Suc_eq_le)

definition reserved :: "string list" where
  \<comment> \<open>the keywords of Python that the fragment does not use\<close>
  "reserved = [''and'', ''as'', ''assert'', ''async'', ''await'', ''break'', ''class'', ''continue'',
     ''def'', ''del'', ''elif'', ''else'', ''except'', ''finally'', ''for'', ''from'', ''global'', ''if'',
     ''import'', ''in'', ''is'', ''lambda'', ''nonlocal'', ''not'', ''or'', ''pass'', ''raise'', ''return'',
     ''try'', ''while'', ''with'', ''yield'']"

definition cmpop_of :: "string \<Rightarrow> cmpop option" where
  "cmpop_of t = map_of [(''=='', Eq), (''!='', Ne), (''<'', Lt), (''<='', Le), (''>'', Gt), (''>='', Ge)] t"

definition binop_of :: "nat \<Rightarrow> string \<Rightarrow> binop option" where
  \<comment> \<open>level 4: \<^verbatim>\<open>+ -\<close>; level 5: \<^verbatim>\<open>* // %\<close>\<close>
  "binop_of lvl t =
     (if lvl = 4 then map_of [(''+'', Add), (''-'', Sub)] t
      else if lvl = 5 then map_of [(''*'', Mul), (''//'', FloorDiv), (''%'', Mod)] t
      else None)"

text \<open>
  The parser follows the precedence levels of the Python grammar: 0 \<^verbatim>\<open>or\<close>, 1 \<^verbatim>\<open>and\<close>,
  2 \<^verbatim>\<open>not\<close>, 3 comparison, 4 sum, 5 product, 6 unary and atoms. Its first argument bounds
  the depth of the recursion; a text it gives up on is outside the fragment.
\<close>

fun parse :: "nat \<Rightarrow> nat \<Rightarrow> token list \<Rightarrow> (expr \<times> token list) option"
and more :: "nat \<Rightarrow> nat \<Rightarrow> expr \<Rightarrow> token list \<Rightarrow> (expr \<times> token list) option" where
  "parse 0 lvl ts = None"
| "parse (Suc n) lvl ts =
     (if lvl = 2 then
        (case ts of
           TName w # ts' \<Rightarrow>
             if w = ''not'' then map_option (\<lambda>(e, r). (Not e, r)) (parse n 2 ts') else parse n 3 ts
         | _ \<Rightarrow> parse n 3 ts)
      else if lvl = 3 then
        (case parse n 4 ts of
           Some (a, TSym w # ts') \<Rightarrow>
             (case cmpop_of w of
                None \<Rightarrow> Some (a, TSym w # ts')
              | Some c \<Rightarrow> map_option (\<lambda>(b, r). (Cmp c a b, r)) (parse n 4 ts'))
         | res \<Rightarrow> res)
      else if lvl < 6 then
        (case parse n (Suc lvl) ts of
           None \<Rightarrow> None
         | Some (a, ts') \<Rightarrow> more n lvl a ts')
      else
        (case ts of
           TNum k # ts' \<Rightarrow> Some (Num (int k), ts')
         | TName w # ts' \<Rightarrow>
             if w = ''True'' then Some (ConstBool True, ts')
             else if w = ''False'' then Some (ConstBool False, ts')
             else if w = ''None'' then Some (ConstNone, ts')
             else if w \<in> set reserved then None
             else Some (Name w, ts')
         | TSym w # ts' \<Rightarrow>
             if w = ''-'' then map_option (\<lambda>(e, r). (Neg e, r)) (parse n 6 ts')
             else if w = ''+'' then map_option (\<lambda>(e, r). (Pos e, r)) (parse n 6 ts')
             else if w = ''('' then
               (case parse n 0 ts' of
                  Some (e, TSym w' # ts'') \<Rightarrow> if w' = '')'' then Some (e, ts'') else None
                | _ \<Rightarrow> None)
             else None
         | [] \<Rightarrow> None))"
| "more 0 lvl a ts = None"
| "more (Suc n) lvl a ts =
     (case ts of
        TName w # ts' \<Rightarrow>
          if (lvl = 0 \<and> w = ''or'') \<or> (lvl = 1 \<and> w = ''and'') then
            (case parse n (Suc lvl) ts' of
               None \<Rightarrow> None
             | Some (b, r) \<Rightarrow> more n lvl (if lvl = 0 then Or a b else And a b) r)
          else Some (a, ts)
      | TSym w # ts' \<Rightarrow>
          (case binop_of lvl w of
             None \<Rightarrow> Some (a, ts)
           | Some f \<Rightarrow>
               (case parse n (Suc lvl) ts' of
                  None \<Rightarrow> None
                | Some (b, r) \<Rightarrow> more n lvl (Bin f a b) r))
      | _ \<Rightarrow> Some (a, ts))"

definition parse_expr :: "string \<Rightarrow> expr option" where
  "parse_expr text =
     (case tokenize text of
        None \<Rightarrow> None
      | Some ts \<Rightarrow>
          (case parse (8 * length ts + 8) 0 ts of Some (e, []) \<Rightarrow> Some e | _ \<Rightarrow> None))"

fun as_int :: "pyval \<Rightarrow> int option" where
  \<comment> \<open>\<^verbatim>\<open>bool\<close> is a subtype of \<^verbatim>\<open>int\<close>\<close>
  "as_int (VInt n) = Some n"
| "as_int (VBool b) = Some (if b then 1 else 0)"
| "as_int (VStr s) = None"
| "as_int VNone = None"

fun is_str :: "pyval \<Rightarrow> bool" where
  "is_str (VStr s) = True"
| "is_str v = False"

fun truthy :: "pyval \<Rightarrow> bool" where
  "truthy (VInt n) = (n \<noteq> 0)"
| "truthy (VBool b) = b"
| "truthy (VStr s) = (s \<noteq> [])"
| "truthy VNone = False"

definition arith :: "binop \<Rightarrow> pyval \<Rightarrow> pyval \<Rightarrow> (pyerr + pyval) option" where
  \<comment> \<open>arithmetic with a string operand (concatenation, repetition, formatting) is not modelled\<close>
  "arith f v w =
     (if is_str v \<or> is_str w then None
      else case (as_int v, as_int w) of
             (Some a, Some b) \<Rightarrow>
               (case f of
                  Add \<Rightarrow> Some (Inr (VInt (a + b)))
                | Sub \<Rightarrow> Some (Inr (VInt (a - b)))
                | Mul \<Rightarrow> Some (Inr (VInt (a * b)))
                | FloorDiv \<Rightarrow> Some (if b = 0 then Inl ZeroDivisionError else Inr (VInt (a div b)))
                | Mod \<Rightarrow> Some (if b = 0 then Inl ZeroDivisionError else Inr (VInt (a mod b))))
           | _ \<Rightarrow> Some (Inl TypeError))"

definition py_equal :: "pyval \<Rightarrow> pyval \<Rightarrow> bool" where
  "py_equal v w =
     (case (as_int v, as_int w) of
        (Some a, Some b) \<Rightarrow> a = b
      | (None, None) \<Rightarrow> v = w
      | _ \<Rightarrow> False)"

definition compare :: "cmpop \<Rightarrow> pyval \<Rightarrow> pyval \<Rightarrow> (pyerr + pyval) option" where
  \<comment> \<open>the order of two strings is not modelled\<close>
  "compare c v w =
     (case c of
        Eq \<Rightarrow> Some (Inr (VBool (py_equal v w)))
      | Ne \<Rightarrow> Some (Inr (VBool (\<not> py_equal v w)))
      | _ \<Rightarrow>
         (if is_str v \<and> is_str w then None
          else case (as_int v, as_int w) of
                 (Some a, Some b) \<Rightarrow>
                   Some (Inr (VBool (case c of Lt \<Rightarrow> a < b | Le \<Rightarrow> a \<le> b | Gt \<Rightarrow> a > b
                                     | Ge \<Rightarrow> a \<ge> b | _ \<Rightarrow> False)))
               | _ \<Rightarrow> Some (Inl TypeError)))"

fun eval_expr :: "expr \<Rightarrow> namespace \<Rightarrow> (pyerr + pyval) option" where
  \<comment> \<open>\<open>None\<close>: not modelled\<close>
  "eval_expr (Num n) ns = Some (Inr (VInt n))"
| "eval_expr (Name x) ns =
     (case ns x of Unbound \<Rightarrow> Some (Inl NameError) | Bound v \<Rightarrow> Some (Inr v) | Opaque \<Rightarrow> None)"
| "eval_expr (ConstBool b) ns = Some (Inr (VBool b))"
| "eval_expr ConstNone ns = Some (Inr VNone)"
| "eval_expr (Neg e) ns =
     (case eval_expr e ns of
        Some (Inr v) \<Rightarrow>
          (case as_int v of Some a \<Rightarrow> Some (Inr (VInt (- a))) | None \<Rightarrow> Some (Inl TypeError))
      | res \<Rightarrow> res)"
| "eval_expr (Pos e) ns =
     (case eval_expr e ns of
        Some (Inr v) \<Rightarrow>
          (case as_int v of Some a \<Rightarrow> Some (Inr (VInt a)) | None \<Rightarrow> Some (Inl TypeError))
      | res \<Rightarrow> res)"
| "eval_expr (Not e) ns =
     (case eval_expr e ns of Some (Inr v) \<Rightarrow> Some (Inr (VBool (\<not> truthy v))) | res \<Rightarrow> res)"
| "eval_expr (Bin f a b) ns =
     (case eval_expr a ns of
        Some (Inr v) \<Rightarrow>
          (case eval_expr b ns of Some (Inr w) \<Rightarrow> arith f v w | res \<Rightarrow> res)
      | res \<Rightarrow> res)"
| "eval_expr (Cmp c a b) ns =
     (case eval_expr a ns of
        Some (Inr v) \<Rightarrow>
          (case eval_expr b ns of Some (Inr w) \<Rightarrow> compare c v w | res \<Rightarrow> res)
      | res \<Rightarrow> res)"
| "eval_expr (And a b) ns =
     (case eval_expr a ns of
        Some (Inr v) \<Rightarrow> if truthy v then eval_expr b ns else Some (Inr v)
      | res \<Rightarrow> res)"
| "eval_expr (Or a b) ns =
     (case eval_expr a ns of
        Some (Inr v) \<Rightarrow> if truthy v then Some (Inr v) else eval_expr b ns
      | res \<Rightarrow> res)"

definition py_eval :: "evaluator \<Rightarrow> evaluator" where
  "py_eval other text ns =
     (case parse_expr text of
        None \<Rightarrow> other text ns
      | Some e \<Rightarrow> (case eval_expr e ns of None \<Rightarrow> other text ns | Some res \<Rightarrow> res))"

fun names_of :: "expr \<Rightarrow> string set" where
  "names_of (Num n) = {}"
| "names_of (Name x) = {x}"
| "names_of (ConstBool b) = {}"
| "names_of ConstNone = {}"
| "names_of (Neg e) = names_of e"
| "names_of (Pos e) = names_of e"
| "names_of (Not e) = names_of e"
| "names_of (Bin f a b) = names_of a \<union> names_of b"
| "names_of (Cmp c a b) = names_of a \<union> names_of b"
| "names_of (And a b) = names_of a \<union> names_of b"
| "names_of (Or a b) = names_of a \<union> names_of b"

section \<open>The index filters of the two commands\<close>

text \<open>
  \<open>amb k\<close> is the namespace that \<^verbatim>\<open>eval\<close> sees at the \<open>k\<close>-th element apart from the two
  variables of the loop: the other locals of the command, the globals of the module, the
  built-ins. The loops return the elements that pass, each with its ordinal index.
\<close>

fun remove_loop ::
  "evaluator \<Rightarrow> string option \<Rightarrow> (nat \<Rightarrow> namespace) \<Rightarrow> nat \<Rightarrow> string list \<Rightarrow> (nat \<times> string) list"
where
  \<comment> \<open>\<^verbatim>\<open>remove_channels\<close>, lines 244 to 250: an element goes on to line 251 unless the
      condition is false or raises\<close>
  "remove_loop ev condition amb i [] = []"
| "remove_loop ev condition amb i (name # names) =
     (case condition of
        None \<Rightarrow> (i, name) # remove_loop ev condition amb (Suc i) names
      | Some cond \<Rightarrow>
          if cond = [] then (i, name) # remove_loop ev condition amb (Suc i) names
          else
            (case ev cond ((amb i)(''i'' := Bound (VInt (int i)), ''name'' := Bound (VStr name))) of
               Inl err \<Rightarrow> remove_loop ev condition amb (Suc i) names
             | Inr v \<Rightarrow>
                 if truthy v then (i, name) # remove_loop ev condition amb (Suc i) names
                 else remove_loop ev condition amb (Suc i) names))"

definition remove_channels_filter ::
  "evaluator \<Rightarrow> string option \<Rightarrow> (nat \<Rightarrow> namespace) \<Rightarrow> string list \<Rightarrow> (nat \<times> string) list" where
  \<comment> \<open>\<^verbatim>\<open>enumerate(names, start=1)\<close>\<close>
  "remove_channels_filter ev condition amb names = remove_loop ev condition amb 1 names"

fun preview_loop ::
  "evaluator \<Rightarrow> string option \<Rightarrow> (nat \<Rightarrow> namespace) \<Rightarrow> nat \<Rightarrow> string list
     \<Rightarrow> pyerr + (nat \<times> string) list"
where
  \<comment> \<open>\<^verbatim>\<open>preview_template\<close>, lines 280 to 282: \<^verbatim>\<open>if expr and eval(expr): preview.append(nm)\<close>;
      an exception leaves the loop, for the handler of line 293\<close>
  "preview_loop ev expr amb i [] = Inr []"
| "preview_loop ev expr amb i (nm # nms) =
     (case expr of
        None \<Rightarrow> preview_loop ev expr amb (Suc i) nms
      | Some t \<Rightarrow>
          if t = [] then preview_loop ev expr amb (Suc i) nms
          else
            (case ev t ((amb i)(''i'' := Bound (VInt (int i)), ''nm'' := Bound (VStr nm))) of
               Inl err \<Rightarrow> Inl err
             | Inr v \<Rightarrow>
                 (case preview_loop ev expr amb (Suc i) nms of
                    Inl err \<Rightarrow> Inl err
                  | Inr kept \<Rightarrow> Inr (if truthy v then (i, nm) # kept else kept))))"

definition preview_template_filter ::
  "evaluator \<Rightarrow> string option \<Rightarrow> (nat \<Rightarrow> namespace) \<Rightarrow> string list \<Rightarrow> pyerr + (nat \<times> string) list"
where
  "preview_template_filter ev expr amb names = preview_loop ev expr amb 1 names"

section \<open>The shapes of templates\<close>

text \<open>
  The surface syntax of the range templates, used to state the properties below:
  \<^verbatim>\<open>[start...end]\<close> and \<^verbatim>\<open>[start...end:step]\<close>, with white space allowed after the opening
  and before the closing bracket, and \<^verbatim>\<open>[prefix, start...end]\<close> with an optional
  \<^verbatim>\<open>:step\<close>.
\<close>

definition digits :: "string \<Rightarrow> bool" where
  "digits s = (s \<noteq> [] \<and> (\<forall>c \<in> set s. is_digit c))"

definition spaces :: "string \<Rightarrow> bool" where
  "spaces s = (\<forall>c \<in> set s. is_space c)"

definition prefix_text :: "string \<Rightarrow> bool" where
  "prefix_text p = (p \<noteq> [] \<and> (\<forall>c \<in> set p. prefix_char c))"

definition bound_text :: "string \<Rightarrow> bool" where
  "bound_text s = (s \<noteq> [] \<and> (\<forall>c \<in> set s. bound_char c))"

definition step_suffix :: "string option \<Rightarrow> string" where
  "step_suffix step = (case step of None \<Rightarrow> [] | Some d \<Rightarrow> '':'' @ d)"

definition bare_template :: "string \<Rightarrow> string \<Rightarrow> string \<Rightarrow> string option \<Rightarrow> string \<Rightarrow> string" where
  "bare_template ws s e step ws' = ''['' @ ws @ s @ ''...'' @ e @ step_suffix step @ ws' @ '']''"

definition prefixed_template :: "string \<Rightarrow> string \<Rightarrow> string \<Rightarrow> string \<Rightarrow> string option \<Rightarrow> string" where
  "prefixed_template p ws s e step = ''['' @ p @ '','' @ ws @ s @ ''...'' @ e @ step_suffix step @ '']''"

definition step_value :: "string option \<Rightarrow> int" where
  \<comment> \<open>the number a step token denotes; 1 without a token\<close>
  "step_value step = (case step of None \<Rightarrow> 1 | Some d \<Rightarrow> int (digits_val d))"

definition step_token :: "string option \<Rightarrow> bool" where
  "step_token step = (case step of None \<Rightarrow> True | Some d \<Rightarrow> digits d)"

definition range_start :: "string \<Rightarrow> bool" where
  \<comment> \<open>a start bound that selects one of the three sub-variants (lines 53, 59 and 69)\<close>
  "range_start s = (py_isdigit s \<or> CHR '':'' \<in> set s \<or> (length s = 1 \<and> py_isalpha s))"

definition time_text :: "string \<Rightarrow> bool" where
  \<comment> \<open>a text that \<^verbatim>\<open>strptime\<close> accepts as \<^verbatim>\<open>%H:%M\<close>\<close>
  "time_text s = (case strptime s of Inl err \<Rightarrow> False | Inr t \<Rightarrow> True)"

definition letter_text :: "string \<Rightarrow> bool" where
  \<comment> \<open>one letter of the English alphabet\<close>
  "letter_text s =
     (length s = 1 \<and> (\<forall>c \<in> set s. in_range (CHR ''A'') (CHR ''Z'') c \<or> in_range (CHR ''a'') (CHR ''z'') c))"

definition range_bounds :: "string \<Rightarrow> string \<Rightarrow> bool" where
  \<comment> \<open>the bounds of a numeric, a time-of-day or an alphabetic range\<close>
  "range_bounds s e =
     ((digits s \<and> digits e) \<or> (time_text s \<and> time_text e) \<or> (letter_text s \<and> letter_text e))"

text \<open>
  A grid template, in the words of the specification: literal text without an opening
  brace, interleaved with brace groups \<^verbatim>\<open>{a...b}\<close>; each group is an axis of numbers or of
  letters, with the values from \<open>a\<close> to \<open>b\<close> inclusive.
\<close>

datatype axis_spec = Numbers string string | Letters char char

fun axis_text :: "axis_spec \<Rightarrow> string" where
  "axis_text (Numbers a b) = a @ ''...'' @ b"
| "axis_text (Letters x y) = [x] @ ''...'' @ [y]"

fun axis_ok :: "axis_spec \<Rightarrow> bool" where
  "axis_ok (Numbers a b) = (digits a \<and> digits b)"
| "axis_ok (Letters x y) =
     ((x \<in> set ascii_uppercase \<and> y \<in> set ascii_uppercase)
      \<or> (x \<in> set ascii_lowercase \<and> y \<in> set ascii_lowercase))"

fun axis_values :: "axis_spec \<Rightarrow> string list" where
  "axis_values (Numbers a b) = map py_str [int (digits_val a)..int (digits_val b)]"
| "axis_values (Letters x y) =
     map (\<lambda>c. [c])
       (filter (\<lambda>c. x \<le> c \<and> c \<le> y)
          (if x \<in> set ascii_uppercase then ascii_uppercase else ascii_lowercase))"

definition brace_free :: "string \<Rightarrow> bool" where
  "brace_free lit = (CHR ''{'' \<notin> set lit)"

fun grid_template :: "string \<Rightarrow> (axis_spec \<times> string) list \<Rightarrow> string" where
  "grid_template lit [] = lit"
| "grid_template lit ((a, lit') # segs) = lit @ ''{'' @ axis_text a @ ''}'' @ grid_template lit' segs"

definition substitute :: "string \<Rightarrow> (axis_spec \<times> string) list \<Rightarrow> string list \<Rightarrow> string" where
  \<comment> \<open>the template with the \<open>k\<close>-th value in the place of the \<open>k\<close>-th brace group\<close>
  "substitute lit segs combo = lit @ concat (map2 (\<lambda>v (a, lit'). v @ lit') combo segs)"

fun chars_of :: "rx \<Rightarrow> char \<Rightarrow> bool" where
  \<comment> \<open>the characters a match of the pattern can run over\<close>
  "chars_of (Lit w) c = (c \<in> set w)"
| "chars_of (Cls p) c = p c"
| "chars_of (Seq a b) c = (chars_of a c \<or> chars_of b c)"
| "chars_of (Alt a b) c = (chars_of a c \<or> chars_of b c)"
| "chars_of (Opt a) c = chars_of a c"
| "chars_of (Star p) c = p c"
| "chars_of (Plus p) c = p c"
| "chars_of (StarLazy p) c = p c"
| "chars_of (Grp n a) c = chars_of a c"
| "chars_of Eol c = False"

definition grid_values :: "string \<Rightarrow> (axis_spec \<times> string) list \<Rightarrow> string list" where
  \<comment> \<open>one name for every tuple of the product of the axes, the last axis running fastest\<close>
  "grid_values lit segs =
     map (substitute lit segs) (product_lists (map (\<lambda>(a, lit'). axis_values a) segs))"

text \<open>
  The condition of a filter, read as a property of the ordinal index alone.
\<close>

definition index_namespace :: "nat \<Rightarrow> namespace" where
  \<comment> \<open>the namespace in which \<^verbatim>\<open>i\<close> is the ordinal index and nothing else is bound\<close>
  "index_namespace k = (\<lambda>x. if x = ''i'' then Bound (VInt (int k)) else Unbound)"

definition holds_at :: "expr \<Rightarrow> nat \<Rightarrow> bool" where
  \<comment> \<open>the condition is true of the ordinal index \<open>k\<close>\<close>
  "holds_at e k = (case eval_expr e (index_namespace k) of Some (Inr v) \<Rightarrow> truthy v | _ \<Rightarrow> False)"

definition raises_at :: "expr \<Rightarrow> nat \<Rightarrow> bool" where
  \<comment> \<open>the condition raises an exception at the ordinal index \<open>k\<close>\<close>
  "raises_at e k = (case eval_expr e (index_namespace k) of Some (Inl err) \<Rightarrow> True | _ \<Rightarrow> False)"

section \<open>Filtering by the ordinal index\<close>

lemma parse_even:
  "parse_expr ''i % 2 == 0'' = Some (Cmp Eq (Bin Mod (Name ''i'') (Num 2)) (Num 0))"
  by code_simp

lemma eval_even:
  "x \<noteq> ''i'' \<Longrightarrow>
   py_eval other ''i % 2 == 0'' (ns(''i'' := Bound (VInt k), x := Bound (VStr nm))) =
     Inr (VBool (k mod 2 = 0))"
  by (simp add: py_eval_def parse_even arith_def compare_def py_equal_def)

lemma one_to_six:
  "interpret_template_string ''[1...6]'' = Some (Inr [''1'', ''2'', ''3'', ''4'', ''5'', ''6''])"
  by code_simp

section \<open>The first match of a pattern\<close>

lemma first_Lit: "first_match (Lit w) (g, w @ s) = Some (g, s)"
  by (simp add: first_match_def startswith_def)

lemma first_Lit_no: "\<not> startswith s w \<Longrightarrow> first_match (Lit w) (g, s) = None"
  by (simp add: first_match_def)

lemma first_Seq:
  "first_match a st = Some m \<Longrightarrow> first_match b m = Some r \<Longrightarrow> first_match (Seq a b) st = Some r"
  by (auto simp: first_match_def split: list.splits)

lemma first_Opt_some: "first_match a st = Some m \<Longrightarrow> first_match (Opt a) st = Some m"
  by (auto simp: first_match_def split: list.splits)

lemma first_Opt_none: "first_match a st = None \<Longrightarrow> first_match (Opt a) st = Some st"
  by (auto simp: first_match_def split: list.splits)

lemma first_Seq_none: "first_match a st = None \<Longrightarrow> first_match (Seq a b) st = None"
  by (auto simp: first_match_def split: list.splits)

lemma first_Star: "first_match (Star p) (g, s) = Some (g, dropWhile p s)"
  by (simp add: first_match_def dropWhile_eq_drop)

lemma first_Plus:
  "s \<noteq> [] \<Longrightarrow> p (hd s) \<Longrightarrow> first_match (Plus p) (g, s) = Some (g, dropWhile p s)"
  by (cases s) (auto simp: first_match_def dropWhile_eq_drop upt_rec[of 1] split: list.splits)

lemma first_Grp:
  "first_match a (g, s) = Some (g', r) \<Longrightarrow>
   first_match (Grp n a) (g, s) = Some ((n, take (length s - length r) s) # g', r)"
  by (auto simp: first_match_def split: list.splits)

lemma dropWhile_hd: "ys = [] \<or> \<not> p (hd ys) \<Longrightarrow> dropWhile p ys = ys"
  by (cases ys) auto

lemma dropWhile_run:
  "\<forall>c \<in> set xs. p c \<Longrightarrow> ys = [] \<or> \<not> p (hd ys) \<Longrightarrow> dropWhile p (xs @ ys) = ys"
  by (induction xs) (simp_all add: dropWhile_hd)

lemma first_Star_run:
  assumes "\<forall>c \<in> set xs. p c" "ys = [] \<or> \<not> p (hd ys)"
  shows "first_match (Star p) (g, xs @ ys) = Some (g, ys)"
  unfolding first_Star dropWhile_run [OF assms] ..

lemma first_Plus_run:
  assumes "xs \<noteq> []" "\<forall>c \<in> set xs. p c" "ys = [] \<or> \<not> p (hd ys)"
  shows "first_match (Grp n (Plus p)) (g, xs @ ys) = Some ((n, xs) # g, ys)"
proof -
  have "xs @ ys \<noteq> []" "p (hd (xs @ ys))"
    using assms(1,2) by (cases xs; simp)+
  then have "first_match (Plus p) (g, xs @ ys) = Some (g, dropWhile p (xs @ ys))"
    by (rule first_Plus)
  then have "first_match (Plus p) (g, xs @ ys) = Some (g, ys)"
    unfolding dropWhile_run [OF assms(2,3)] .
  from first_Grp [OF this, of n] show ?thesis by simp
qed

lemma in_range_code:
  "in_range lo hi c = ((of_char lo :: nat) \<le> of_char c \<and> (of_char c :: nat) \<le> of_char hi)"
  by (simp add: in_range_def less_eq_char_def)

lemma digit_facts:
  "is_digit c \<Longrightarrow> \<not> is_space c \<and> c \<noteq> CHR ''.'' \<and> c \<noteq> CHR '':'' \<and> c \<noteq> CHR '']'' \<and> c \<noteq> CHR '',''
     \<and> bound_char c \<and> prefix_char c"
  by (auto simp: is_digit_def is_space_def in_range_code bound_char_def prefix_char_def)

lemma space_facts:
  "is_space c \<Longrightarrow> \<not> is_digit c \<and> c \<noteq> CHR ''.'' \<and> c \<noteq> CHR '':'' \<and> c \<noteq> CHR '']'' \<and> c \<noteq> CHR '',''
     \<and> \<not> bound_char c"
  by (auto simp: is_digit_def is_space_def in_range_code bound_char_def)

lemma m0_match:
  assumes ws: "spaces ws" and s: "digits s" and e: "digits e" and ws': "spaces ws'"
    and d: "step_token step"
  shows "re_match m0_rx (bare_template ws s e step ws' @ tail) =
           Some ((case step of None \<Rightarrow> [] | Some d \<Rightarrow> [(3, d)]) @ [(2, e), (1, s)], tail)"
proof -
  let ?r5 = "ws' @ '']'' @ tail"
  let ?r4 = "step_suffix step @ ?r5"
  let ?r3 = "e @ ?r4"
  let ?r2 = "s @ ''...'' @ ?r3"
  let ?g2 = "[(2, e), (1, s)]"
  let ?g3 = "(case step of None \<Rightarrow> [] | Some d \<Rightarrow> [(3, d)]) @ ?g2"
  have hd5: "hd ?r5 = CHR '']'' \<or> is_space (hd ?r5)"
    using ws' by (cases ws') (simp_all add: spaces_def)
  then have nd5: "?r5 = [] \<or> \<not> is_digit (hd ?r5)"
    using digit_facts [of "hd ?r5"] by blast
  have "hd ?r4 = CHR '':'' \<or> hd ?r4 = hd ?r5"
    by (cases step) (simp_all add: step_suffix_def)
  with hd5 have nd4: "?r4 = [] \<or> \<not> is_digit (hd ?r4)"
    using digit_facts [of "hd ?r4"] by metis
  have a1: "first_match (Lit ''['') ([], ''['' @ ws @ ?r2) = Some ([], ws @ ?r2)"
    by (rule first_Lit)
  have "is_digit (hd ?r2)"
    using s by (cases s) (simp_all add: digits_def)
  then have "?r2 = [] \<or> \<not> is_space (hd ?r2)"
    using digit_facts by blast
  with ws have a2: "first_match (Star is_space) ([], ws @ ?r2) = Some ([], ?r2)"
    unfolding spaces_def by (rule first_Star_run)
  have "\<not> is_digit (CHR ''.'')"
    using digit_facts by blast 
  then have a3: "first_match (Grp 1 (Plus is_digit)) ([], ?r2) = Some ([(1, s)], ''...'' @ ?r3)"
    using s by (intro first_Plus_run) (simp_all add: digits_def)
  have a4: "first_match (Lit ''...'') ([(1, s)], ''...'' @ ?r3) = Some ([(1, s)], ?r3)"
    by (rule first_Lit)
  have a5: "first_match (Grp 2 (Plus is_digit)) ([(1, s)], ?r3) = Some (?g2, ?r4)"
    using e nd4 by (intro first_Plus_run) (simp_all add: digits_def)
  have a6: "first_match (Opt (Seq (Lit '':'') (Grp 3 (Plus is_digit)))) (?g2, ?r4) = Some (?g3, ?r5)"
  proof (cases step)
    case None
    have "hd ?r5 \<noteq> CHR '':''"
      using hd5 space_facts [of "hd ?r5"] by auto
    then have "\<not> startswith ?r5 '':''"
      by (cases ?r5) (simp_all add: startswith_def)
    then show ?thesis
      using None by (simp add: step_suffix_def first_Opt_none first_Seq_none first_Lit_no)
  next
    case (Some d')
    have "first_match (Grp 3 (Plus is_digit)) (?g2, d' @ ?r5) = Some ((3, d') # ?g2, ?r5)"
      using d Some nd5 by (intro first_Plus_run) (simp_all add: digits_def step_token_def)
    with first_Lit [of "'':''" ?g2 "d' @ ?r5"]
    have "first_match (Seq (Lit '':'') (Grp 3 (Plus is_digit))) (?g2, '':'' @ d' @ ?r5) =
            Some ((3, d') # ?g2, ?r5)"
      by (rule first_Seq)
    then show ?thesis
      using Some by (simp add: step_suffix_def first_Opt_some)
  qed
  have "\<not> is_space (CHR '']'')"
    using space_facts by blast
  with ws' have a7: "first_match (Star is_space) (?g3, ?r5) = Some (?g3, '']'' @ tail)"
    by (intro first_Star_run) (simp_all add: spaces_def)
  have a8: "first_match (Lit '']'') (?g3, '']'' @ tail) = Some (?g3, tail)"
    by (rule first_Lit)
  have "first_match m0_rx ([], ''['' @ ws @ ?r2) = Some (?g3, tail)"
    unfolding m0_rx_def seqs.simps
    by (intro first_Seq [OF a1] first_Seq [OF a2] first_Seq [OF a3] first_Seq [OF a4]
        first_Seq [OF a5] first_Seq [OF a6] first_Seq [OF a7] a8)
  then show ?thesis
    by (simp add: re_match_def bare_template_def)
qed

section \<open>What a match runs over\<close>

lemma take_run: "k \<le> length (takeWhile p s) \<Longrightarrow> \<forall>c \<in> set (take k s). p c"
proof
  fix c assume k: "k \<le> length (takeWhile p s)" and c: "c \<in> set (take k s)"
  have "take k s = take k (takeWhile p s @ dropWhile p s)" by simp
  also have "\<dots> = take k (takeWhile p s)" using k by (simp del: takeWhile_dropWhile_id)
  finally have "c \<in> set (takeWhile p s)" using c by (auto dest: in_set_takeD)
  then show "p c" by (rule set_takeWhileD [THEN conjunct2])
qed

lemma ms_consumes:
  "(g', r) \<in> set (ms rx (g, s)) \<Longrightarrow> \<exists>u. s = u @ r \<and> (\<forall>c \<in> set u. chars_of rx c)"
proof (induction rx arbitrary: g s g' r)
  case (Lit w)
  then have "s = w @ r"
    by (auto simp: startswith_def split: if_splits) (metis append_take_drop_id)
  then show ?case by auto
next
  case (Cls p)
  then show ?case by (cases s) (auto split: if_splits)
next
  case (Seq a b)
  then obtain g1 r1 where 1: "(g1, r1) \<in> set (ms a (g, s))" and 2: "(g', r) \<in> set (ms b (g1, r1))"
    by auto
  from Seq.IH(1) [OF 1] Seq.IH(2) [OF 2] show ?case
    by (metis append.assoc chars_of.simps(3) set_append Un_iff)
next
  case (Alt a b)
  then show ?case by (metis chars_of.simps(4) ms.simps(4) set_append Un_iff)
next
  case (Opt a)
  then have "(g', r) \<in> set (ms a (g, s)) \<or> r = s" by auto
  with Opt.IH show ?case by (metis append_Nil chars_of.simps(5) empty_iff list.set(1))
next
  case (Star p)
  then have "\<exists>k. k \<le> length (takeWhile p s) \<and> r = drop k s"
    by (auto simp: less_Suc_eq_le less_eq_Suc_le simp del: upt_Suc intro: less_imp_le Suc_leD)
  then obtain k where "k \<le> length (takeWhile p s)" "r = drop k s" by blast
  then show ?case using take_run [of k p s] by (intro exI [of _ "take k s"]) simp
next
  case (Plus p)
  then have "\<exists>k. k \<le> length (takeWhile p s) \<and> r = drop k s"
    by (auto simp: less_Suc_eq_le less_eq_Suc_le simp del: upt_Suc intro: less_imp_le Suc_leD)
  then obtain k where "k \<le> length (takeWhile p s)" "r = drop k s" by blast
  then show ?case using take_run [of k p s] by (intro exI [of _ "take k s"]) simp
next
  case (StarLazy p)
  then have "\<exists>k. k \<le> length (takeWhile p s) \<and> r = drop k s"
    by (auto simp: less_Suc_eq_le less_eq_Suc_le simp del: upt_Suc intro: less_imp_le Suc_leD)
  then obtain k where "k \<le> length (takeWhile p s)" "r = drop k s" by blast
  then show ?case using take_run [of k p s] by (intro exI [of _ "take k s"]) simp
next
  case (Grp n a)
  then obtain g1 where "(g1, r) \<in> set (ms a (g, s))" by auto
  with Grp.IH show ?case by simp
next
  case Eol
  then show ?case by (auto split: if_splits)
qed

lemma ms_seqs_last:
  "rs \<noteq> [] \<Longrightarrow> (g', r) \<in> set (ms (seqs (rs @ [Lit w])) (g, s)) \<Longrightarrow>
   \<exists>u. s = u @ w @ r \<and> (\<forall>c \<in> set u. \<exists>a \<in> set rs. chars_of a c)"
proof (induction rs arbitrary: g s)
  case Nil
  then show ?case by simp
next
  case (Cons a rs)
  show ?case
  proof (cases rs)
    case Nil
    with Cons.prems obtain g1 r1 where 1: "(g1, r1) \<in> set (ms a (g, s))"
      and 2: "(g', r) \<in> set (ms (Lit w) (g1, r1))" by auto
    from 2 have "r1 = w @ r"
      by (auto simp: startswith_def split: if_splits) (metis append_take_drop_id)
    with ms_consumes [OF 1] Nil show ?thesis by auto
  next
    case (Cons b rs')
    with Cons.prems obtain g1 r1 where 1: "(g1, r1) \<in> set (ms a (g, s))"
      and 2: "(g', r) \<in> set (ms (seqs (rs @ [Lit w])) (g1, r1))" by auto
    from Cons.IH [OF _ 2] Cons obtain u where u: "r1 = u @ w @ r" "\<forall>c \<in> set u. \<exists>a \<in> set rs. chars_of a c"
      by auto
    from ms_consumes [OF 1] obtain v where v: "s = v @ r1" "\<forall>c \<in> set v. chars_of a c" by auto
    show ?thesis
      using u v by (intro exI [of _ "v @ u"]) auto
  qed
qed

lemma first_stop:
  "xs @ a # r = ys @ b # r' \<Longrightarrow> a \<notin> set ys \<Longrightarrow> b \<notin> set xs \<Longrightarrow> a \<noteq> b \<Longrightarrow> False"
proof (induction xs arbitrary: ys)
  case Nil
  then show ?case by (cases ys) auto
next
  case (Cons x xs)
  then show ?case by (cases ys) auto
qed

lemma m0_no_match:
  assumes "\<forall>c \<in> set p. c \<noteq> CHR '']''"
  shows "re_match m0_rx (''['' @ p @ '','' @ rest) = None"
proof -
  have "ms m0_rx ([], ''['' @ p @ '','' @ rest) = []"
  proof (rule ccontr)
    assume "ms m0_rx ([], ''['' @ p @ '','' @ rest) \<noteq> []"
    then obtain g' r where "(g', r) \<in> set (ms m0_rx ([], ''['' @ p @ '','' @ rest))"
      by (cases "ms m0_rx ([], ''['' @ p @ '','' @ rest)") auto
    then have "(g', r) \<in> set (ms (seqs ([Lit ''['', Star is_space, Grp 1 (Plus is_digit), Lit ''...'',
                 Grp 2 (Plus is_digit), Opt (seqs [Lit '':'', Grp 3 (Plus is_digit)]),
                 Star is_space] @ [Lit '']''])) ([], ''['' @ p @ '','' @ rest))"
      by (simp only: m0_rx_def append.simps)
    from ms_seqs_last [OF _ this] obtain u where
      u: "''['' @ p @ '','' @ rest = u @ '']'' @ r"
      and c: "\<forall>c \<in> set u. \<exists>a \<in> set [Lit ''['', Star is_space, Grp 1 (Plus is_digit), Lit ''...'',
                 Grp 2 (Plus is_digit), Opt (seqs [Lit '':'', Grp 3 (Plus is_digit)]),
                 Star is_space]. chars_of a c"
      by blast
    have "CHR '','' \<notin> set u"
    proof
      assume "CHR '','' \<in> set u"
      with c obtain a where "a \<in> set [Lit ''['', Star is_space, Grp 1 (Plus is_digit), Lit ''...'',
                 Grp 2 (Plus is_digit), Opt (seqs [Lit '':'', Grp 3 (Plus is_digit)]),
                 Star is_space]" "chars_of a (CHR '','')"
        by blast
      then have "is_space (CHR '','') \<or> is_digit (CHR '','')"
        by auto
      then show False
        using digit_facts space_facts by blast
    qed
    moreover have "CHR '']'' \<notin> set (''['' @ p)"
      using assms by auto
    ultimately show False
      using u first_stop [of u "CHR '']''" r "''['' @ p" "CHR '',''" rest] by simp
  qed
  then show ?thesis by (simp add: re_match_def first_match_def)
qed

section \<open>Numbers and the bare range\<close>

lemma digit_not_sign:
  "is_digit c \<Longrightarrow> \<not> int_space c \<and> c \<noteq> CHR ''+'' \<and> c \<noteq> CHR ''-'' \<and> c \<noteq> CHR ''_''"
  by (auto simp: is_digit_def int_space_def in_range_code)

lemma int_body_digits: "s \<noteq> [] \<Longrightarrow> \<forall>c \<in> set s. is_digit c \<Longrightarrow> int_body s"
  by (induction s rule: int_body.induct) (auto dest: digit_not_sign)

lemma py_int_digits:
  assumes "digits s"
  shows "py_int s = Inr (int (digits_val s))"
proof -
  from assms have ne: "s \<noteq> []" and all: "\<forall>c \<in> set s. is_digit c"
    by (simp_all add: digits_def)
  have hd: "is_digit (hd s)" and last: "is_digit (last s)"
    using ne all by simp_all
  have 1: "dropWhile int_space s = s"
    using hd digit_not_sign by (intro dropWhile_hd) blast
  have "hd (rev s) = last s"
    using ne by (simp add: hd_rev)
  then have 2: "dropWhile int_space (rev s) = rev s"
    using last digit_not_sign [of "last s"] by (intro dropWhile_hd) simp
  have 3: "filter (\<lambda>c. c \<noteq> CHR ''_'') s = s"
    using all digit_not_sign by (auto simp: filter_id_conv)
  have 4: "hd s \<noteq> CHR ''+''" "hd s \<noteq> CHR ''-''"
    using hd digit_not_sign by auto
  show ?thesis
    by (simp add: py_int_def 1 2 3 4 int_body_digits [OF ne all])
qed

lemma digit_char_digit: "k < 10 \<Longrightarrow> is_digit (digit_char k)"
proof -
  assume "k < 10"
  then have "digit_char k \<in> set ''0123456789''"
    unfolding digit_char_def by (intro nth_mem) simp
  then show ?thesis
    by (auto simp: is_digit_def in_range_code)
qed

lemma str_nat_digits: "str_nat n \<noteq> [] \<and> (\<forall>c \<in> set (str_nat n). is_digit c)"
proof (induction n rule: str_nat.induct)
  case (1 n)
  show ?case
  proof (cases "n < 10")
    case True
    then show ?thesis by (subst (1 2) str_nat.simps) (simp add: digit_char_digit)
  next
    case False
    with 1 show ?thesis by (subst (1 2) str_nat.simps) (auto simp: digit_char_digit)
  qed
qed

lemma zfill_numeral:
  "0 \<le> i \<Longrightarrow> zfill w (py_str i) = replicate (w - length (py_str i)) (CHR ''0'') @ py_str i"
  using str_nat_digits [of "nat i"] digit_not_sign [of "hd (str_nat (nat i))"]
  by (auto simp: zfill_def py_str_def)

lemma py_range_lower:
  "py_range lo hi step = Inr ns \<Longrightarrow> 0 < step \<Longrightarrow> \<forall>i \<in> set ns. lo \<le> i"
  by (auto simp: py_range_def split: if_splits)

lemma numeric_range_digits:
  assumes "digits s" "digits e" "0 \<le> step"
  shows "numeric_range prefix s e step =
           map_sum id (map (\<lambda>i. prefix @ replicate (max (length s) (length e) - length (py_str i)) (CHR ''0'') @ py_str i))
             (py_range (int (digits_val s)) (int (digits_val e) + 1) step)"
proof (cases "py_range (int (digits_val s)) (int (digits_val e) + 1) step")
  case (Inl err)
  then show ?thesis
    by (simp add: numeric_range_def py_int_digits assms)
next
  case (Inr ns)
  then have "0 < step"
    using assms(3) by (auto simp: py_range_def split: if_splits)
  from py_range_lower [OF Inr this] have "\<forall>i \<in> set ns. 0 \<le> i"
    by fastforce
  then show ?thesis
    using Inr by (simp add: numeric_range_def py_int_digits assms zfill_numeral)
qed

lemma step_of_None: "step_of None = Inr 1"
  by (simp add: step_of_def)

lemma step_of_digits: "digits d \<Longrightarrow> step_of (Some d) = Inr (int (digits_val d))"
  by (auto simp: step_of_def py_int_digits digits_def)

lemma interpret_bare:
  assumes "spaces ws" "digits s" "digits e" "spaces ws'"
    and "step_token step"
  shows "interpret_template_string (bare_template ws s e step ws' @ tail) =
           Some (bare_range s e step)"
  unfolding interpret_template_string_def m0_match [OF assms]
  by (cases step) (simp_all add: group_text_def group_def)

section \<open>The prefixed range\<close>

lemma bound_facts:
  "bound_char c \<Longrightarrow> \<not> is_space c \<and> c \<noteq> CHR ''.'' \<and> c \<noteq> CHR '']'' \<and> c \<noteq> CHR '',''"
  by (auto simp: bound_char_def is_space_def in_range_code)

lemma m1_match:
  assumes p: "prefix_text p" and ws: "spaces ws" and s: "bound_text s" and e: "bound_text e"
  shows "re_match m1_rx (''['' @ p @ '','' @ ws @ s @ ''...'' @ e @ '']'' @ tail) =
           Some ([(3, e), (2, s), (1, p)], tail)"
proof -
  let ?r3 = "e @ '']'' @ tail"
  let ?r2 = "s @ ''...'' @ ?r3"
  let ?r1 = "ws @ ?r2"
  let ?g3 = "[(3, e), (2, s), (1, p)]"
  have a1: "first_match (Lit ''['') ([], ''['' @ p @ '','' @ ?r1) = Some ([], p @ '','' @ ?r1)"
    by (rule first_Lit)
  have a2: "first_match (Grp 1 (Plus prefix_char)) ([], p @ '','' @ ?r1) = Some ([(1, p)], '','' @ ?r1)"
    using p by (intro first_Plus_run) (simp_all add: prefix_text_def prefix_char_def)
  have a3: "first_match (Lit '','') ([(1, p)], '','' @ ?r1) = Some ([(1, p)], ?r1)"
    by (rule first_Lit)
  have "bound_char (hd ?r2)"
    using s by (cases s) (simp_all add: bound_text_def)
  then have "?r2 = [] \<or> \<not> is_space (hd ?r2)"
    using bound_facts by blast
  with ws have a4: "first_match (Star is_space) ([(1, p)], ?r1) = Some ([(1, p)], ?r2)"
    unfolding spaces_def by (rule first_Star_run)
  have "\<not> bound_char (CHR ''.'')" "\<not> bound_char (CHR '']'')"
    using bound_facts by blast+
  then have a5: "first_match (Grp 2 (Plus bound_char)) ([(1, p)], ?r2) = Some ([(2, s), (1, p)], ''...'' @ ?r3)"
    and a7: "first_match (Grp 3 (Plus bound_char)) ([(2, s), (1, p)], ?r3) = Some (?g3, '']'' @ tail)"
    using s e by (intro first_Plus_run; simp add: bound_text_def)+
  have a6: "first_match (Lit ''...'') ([(2, s), (1, p)], ''...'' @ ?r3) = Some ([(2, s), (1, p)], ?r3)"
    by (rule first_Lit)
  have a8: "first_match (Opt (Seq (Lit '':'') (Grp 4 (Plus is_digit)))) (?g3, '']'' @ tail) =
              Some (?g3, '']'' @ tail)"
    by (simp add: first_Opt_none first_Seq_none first_Lit_no startswith_def)
  have a9: "first_match (Lit '']'') (?g3, '']'' @ tail) = Some (?g3, tail)"
    by (rule first_Lit)
  have "first_match m1_rx ([], ''['' @ p @ '','' @ ?r1) = Some (?g3, tail)"
    unfolding m1_rx_def seqs.simps
    by (intro first_Seq [OF a1] first_Seq [OF a2] first_Seq [OF a3] first_Seq [OF a4]
        first_Seq [OF a5] first_Seq [OF a6] first_Seq [OF a7] first_Seq [OF a8] a9)
  then show ?thesis
    by (simp add: re_match_def)
qed

lemma interpret_prefixed:
  assumes "prefix_text p" "spaces ws" "bound_text s" "bound_text e"
  shows "interpret_template_string (''['' @ p @ '','' @ ws @ s @ ''...'' @ e @ '']'' @ tail) =
           (if py_isdigit s then Some (numeric_range (py_strip p) s e 1)
            else if CHR '':'' \<in> set s then time_range (py_strip p) s e 1
            else if length s = 1 \<and> py_isalpha s then Some (letter_range (py_strip p) s e 1)
            else Some (later_matchers (''['' @ p @ '','' @ ws @ s @ ''...'' @ e @ '']'' @ tail)))"
proof -
  have "\<forall>c \<in> set p. c \<noteq> CHR '']''"
    using assms(1) by (simp add: prefix_text_def prefix_char_def)
  from m0_no_match [OF this]
  have "re_match m0_rx (''['' @ p @ '','' @ ws @ s @ ''...'' @ e @ '']'' @ tail) = None" .
  then show ?thesis
    unfolding interpret_template_string_def m1_match [OF assms]
    by (simp add: group_text_def group_def step_of_def)
qed

lemma bound_text_step:
  assumes "bound_text e" "step_token step"
  shows "bound_text (e @ step_suffix step)"
  using assms digit_facts
  by (cases step) (auto simp: bound_text_def step_suffix_def digits_def bound_char_def step_token_def)

section \<open>Zero padding\<close>

lemma bare_range_value:
  assumes "digits s" "digits e" "step_token step"
  shows "bare_range s e step =
           map_sum id (map (\<lambda>i. replicate (max (length s) (length e) - length (py_str i)) (CHR ''0'') @ py_str i))
             (py_range (int (digits_val s)) (int (digits_val e) + 1) (step_value step))"
proof -
  have "step_of step = Inr (step_value step)"
    using assms(3) by (cases step) (simp_all add: step_of_None step_of_digits step_value_def step_token_def)
  moreover have "0 \<le> step_value step"
    by (cases step) (simp_all add: step_value_def)
  ultimately show ?thesis
    using numeric_range_digits [OF assms(1,2), of "step_value step" "[]"]
    by (simp add: bare_range_def)
qed

lemma digits_py_isdigit: "digits s \<Longrightarrow> py_isdigit s"
  by (auto simp: digits_def py_isdigit_def)

lemma digits_bound_text: "digits s \<Longrightarrow> bound_text s"
  using digit_facts by (auto simp: digits_def bound_text_def)

text \<open>
  Claim C5. In a bare numeric range, and in a prefixed one, every number comes out as its
  decimal numeral with zeros put in front up to the width of the longer of the two bound
  tokens as they are written; the prefix does not count. A prefixed template with a
  \<^verbatim>\<open>:step\<close> token produces no number at all (lemma \<open>prefixed_step_rejected\<close>).
\<close>

theorem zero_padding_width:
  assumes "spaces ws" "digits s" "digits e" "spaces ws'" "step_token step" "prefix_text p"
  shows "interpret_template_string (bare_template ws s e step ws' @ tail) =
           Some (map_sum id
                  (map (\<lambda>i. replicate (max (length s) (length e) - length (py_str i)) (CHR ''0'')
                             @ py_str i))
                  (py_range (int (digits_val s)) (int (digits_val e) + 1) (step_value step)))
       \<and> interpret_template_string (prefixed_template p ws s e None @ tail) =
           Some (map_sum id
                  (map (\<lambda>i. py_strip p
                             @ replicate (max (length s) (length e) - length (py_str i)) (CHR ''0'')
                             @ py_str i))
                  (py_range (int (digits_val s)) (int (digits_val e) + 1) 1))"
proof
  show "interpret_template_string (bare_template ws s e step ws' @ tail) =
           Some (map_sum id
                  (map (\<lambda>i. replicate (max (length s) (length e) - length (py_str i)) (CHR ''0'')
                             @ py_str i))
                  (py_range (int (digits_val s)) (int (digits_val e) + 1) (step_value step)))"
    using interpret_bare [OF assms(1-5)] bare_range_value [OF assms(2,3,5)] by simp
  have "interpret_template_string (''['' @ p @ '','' @ ws @ s @ ''...'' @ e @ '']'' @ tail) =
          Some (numeric_range (py_strip p) s e 1)"
    using interpret_prefixed [OF assms(6,1) digits_bound_text [OF assms(2)] digits_bound_text [OF assms(3)]]
      digits_py_isdigit [OF assms(2)] by simp
  then show "interpret_template_string (prefixed_template p ws s e None @ tail) =
           Some (map_sum id
                  (map (\<lambda>i. py_strip p
                             @ replicate (max (length s) (length e) - length (py_str i)) (CHR ''0'')
                             @ py_str i))
                  (py_range (int (digits_val s)) (int (digits_val e) + 1) 1))"
    using numeric_range_digits [OF assms(2,3), of 1 "py_strip p"]
    by (simp add: prefixed_template_def step_suffix_def)
qed

lemma padded_one_to_ten:
  "map_sum id
     (map (\<lambda>i. replicate (max (length ''01'') (length ''10'') - length (py_str i)) (CHR ''0'') @ py_str i))
     (py_range (int (digits_val ''01'')) (int (digits_val ''10'') + 1) (step_value None)) =
   Inr [''01'', ''02'', ''03'', ''04'', ''05'', ''06'', ''07'', ''08'', ''09'', ''10'']"
  by code_simp

lemma digits_01_10: "digits ''01''" "digits ''10''"
  by (simp_all add: digits_def is_digit_def in_range_code)

lemma shape_trivia: "spaces []" "step_token None" "prefix_text ''Room''"
  by (simp_all add: spaces_def step_token_def prefix_text_def prefix_char_def)

theorem zero_padding_width_witness:
  "interpret_template_string ''[01...10]'' =
     Some (Inr [''01'', ''02'', ''03'', ''04'', ''05'', ''06'', ''07'', ''08'', ''09'', ''10''])"
proof -
  note zero_padding_width [OF shape_trivia(1) digits_01_10 shape_trivia(1,2,3), of "[]", THEN conjunct1]
  then show ?thesis
    unfolding padded_one_to_ten by (simp add: bare_template_def step_suffix_def)
qed

section \<open>Empty ranges and trailing text\<close>

lemma py_range_empty: "hi \<le> lo \<Longrightarrow> 0 < step \<Longrightarrow> py_range lo hi step = Inr []"
proof -
  assume a: "hi \<le> lo" "0 < step"
  then have "(hi - lo + step - 1) div step \<le> (step - 1) div step"
    by (intro zdiv_mono1) simp_all
  also have "(step - 1) div step = 0"
    using a by (simp add: div_pos_pos_trivial)
  finally show ?thesis
    using a by (simp add: py_range_def)
qed

lemma digits_five_one_two: "digits ''5''" "digits ''1''" "digits ''2''"
  by (simp_all add: digits_def is_digit_def in_range_code)

text \<open>
  Claim C10. Both range patterns are matched from the start of the template only: what
  follows the closing bracket of a bare range, or of a prefixed range whose start bound
  selects one of the three sub-variants, has no effect on the result.
\<close>

theorem trailing_text_discarded:
  assumes "spaces ws" "spaces ws'" "digits s" "digits e" "step_token step"
    and "prefix_text p" "bound_text s'" "bound_text e'" "step_token step'" "range_start s'"
  shows "interpret_template_string (bare_template ws s e step ws' @ tail) =
           interpret_template_string (bare_template ws s e step ws')
       \<and> interpret_template_string (prefixed_template p ws s' e' step' @ tail) =
           interpret_template_string (prefixed_template p ws s' e' step')"
proof
  show "interpret_template_string (bare_template ws s e step ws' @ tail) =
           interpret_template_string (bare_template ws s e step ws')"
    using interpret_bare [OF assms(1,3,4,2,5), of tail] interpret_bare [OF assms(1,3,4,2,5), of "[]"]
    by simp
  note e = bound_text_step [OF assms(8,9)]
  show "interpret_template_string (prefixed_template p ws s' e' step' @ tail) =
           interpret_template_string (prefixed_template p ws s' e' step')"
    using interpret_prefixed [OF assms(6,1,7) e, of tail] interpret_prefixed [OF assms(6,1,7) e, of "[]"]
      assms(10)
    by (auto simp: prefixed_template_def range_start_def)
qed

lemma one_to_two: "interpret_template_string ''[1...2]'' = Some (Inr [''1'', ''2''])"
  by code_simp

lemma bound_text_one_two: "bound_text ''1''" "bound_text ''2''" "range_start ''1''"
  by (simp_all add: bound_text_def bound_char_def range_start_def py_isdigit_def is_digit_def in_range_code)

theorem trailing_text_discarded_witness:
  "interpret_template_string ''[1...2]tail'' = Some (Inr [''1'', ''2''])"
  using trailing_text_discarded [OF shape_trivia(1,1) digits_five_one_two(2,3) shape_trivia(2,3)
      bound_text_one_two(1,2) shape_trivia(2) bound_text_one_two(3), of "''tail''", THEN conjunct1]
  by (simp add: bare_template_def step_suffix_def one_to_two)

section \<open>Step tokens\<close>

lemma int_body_chars: "int_body u \<Longrightarrow> \<forall>c \<in> set u. is_digit c \<or> c = CHR ''_''"
  by (induction u rule: int_body.induct) (auto split: if_splits)

lemma in_dropWhile: "x \<in> set t \<Longrightarrow> \<not> p x \<Longrightarrow> x \<in> set (dropWhile p t)"
  by (induction t) auto

lemma py_int_colon:
  assumes "CHR '':'' \<in> set t"
  shows "py_int t = Inl ValueError"
proof -
  let ?t = "rev (dropWhile int_space (rev (dropWhile int_space t)))"
  let ?u = "if ?t \<noteq> [] \<and> (hd ?t = CHR ''+'' \<or> hd ?t = CHR ''-'') then tl ?t else ?t"
  have ns: "\<not> int_space (CHR '':'')"
    by (simp add: int_space_def in_range_code)
  have "CHR '':'' \<in> set (dropWhile int_space t)"
    using assms ns by (rule in_dropWhile)
  then have "CHR '':'' \<in> set (rev (dropWhile int_space t))"
    by simp
  then have "CHR '':'' \<in> set (dropWhile int_space (rev (dropWhile int_space t)))"
    using ns by (rule in_dropWhile)
  then have t: "CHR '':'' \<in> set ?t"
    by simp
  then have "CHR '':'' \<in> set ?u"
    by (cases ?t) auto
  moreover have "\<not> is_digit (CHR '':'')"
    by (simp add: is_digit_def in_range_code)
  ultimately have "\<not> int_body ?u"
  proof -
    assume c: "CHR '':'' \<in> set ?u" and nd: "\<not> is_digit (CHR '':'')"
    show ?thesis
    proof
      assume "int_body ?u"
      from int_body_chars [OF this] c have "is_digit (CHR '':'') \<or> CHR '':'' = CHR ''_''"
        by (rule bspec)
      with nd show False by simp
    qed
  qed
  then show ?thesis
    by (simp add: py_int_def Let_def)
qed

lemma find_from_subset: "find_from k sub s = Some j \<Longrightarrow> set sub \<subseteq> set s"
proof (induction s arbitrary: k)
  case Nil
  then show ?case by (simp split: if_splits)
next
  case (Cons x xs)
  show ?case
  proof (cases "startswith (x # xs) sub")
    case True
    then have "sub = take (length sub) (x # xs)"
      by (simp add: startswith_def)
    then show ?thesis
      by (metis set_take_subset)
  next
    case False
    with Cons show ?thesis by auto
  qed
qed

lemma py_index_colon:
  "CHR '':'' \<in> set sub \<Longrightarrow> py_index (alphabet_of a) sub = Inl ValueError"
proof -
  assume c: "CHR '':'' \<in> set sub"
  have "CHR '':'' \<notin> set (alphabet_of a)"
    by (simp add: alphabet_of_def ascii_uppercase_def ascii_lowercase_def)
  with c have "find_from 0 sub (alphabet_of a) = None"
    using find_from_subset [of 0 sub "alphabet_of a"] by (cases "find_from 0 sub (alphabet_of a)") auto
  then show ?thesis by (simp add: py_index_def)
qed

lemma letter_range_colon:
  assumes "CHR '':'' \<in> set e"
  shows "letter_range prefix s e step = Inl ValueError"
proof (cases "py_index (alphabet_of s) s")
  case (Inl err)
  then have "err = ValueError"
    by (auto simp: py_index_def split: option.splits)
  with Inl show ?thesis by (simp add: letter_range_def)
next
  case (Inr i)
  then show ?thesis by (simp add: letter_range_def py_index_colon [OF assms])
qed

lemma ms_SeqD:
  "(g', r) \<in> set (ms (Seq a b) st) \<Longrightarrow>
   \<exists>g1 r1. (g1, r1) \<in> set (ms a st) \<and> (g', r) \<in> set (ms b (g1, r1))"
  by auto

lemma ms_LitD: "(g', r) \<in> set (ms (Lit w) (g, s)) \<Longrightarrow> s = w @ r"
proof -
  assume "(g', r) \<in> set (ms (Lit w) (g, s))"
  then have "take (length w) s = w" "r = drop (length w) s"
    by (auto simp: startswith_def split: if_splits)
  then show ?thesis
    using append_take_drop_id [of "length w" s] by simp
qed

lemma time_rx_shape:
  assumes "(g', r) \<in> set (ms time_rx (g, t))"
  shows "\<exists>h m. t = h @ '':'' @ m @ r \<and> (\<forall>c \<in> set h. is_digit c) \<and> (\<forall>c \<in> set m. is_digit c)"
proof -
  let ?H = "Grp 1 (Alt (Seq (Lit ''2'') (Cls (in_range (CHR ''0'') (CHR ''3''))))
                         (Alt (Seq (Cls (in_range (CHR ''0'') (CHR ''1''))) (Cls is_digit))
                              (Cls is_digit)))"
  let ?M = "Grp 2 (Alt (Seq (Cls (in_range (CHR ''0'') (CHR ''5''))) (Cls is_digit))
                              (Cls is_digit))"
  from assms have "(g', r) \<in> set (ms (Seq ?H (Seq (Lit '':'') ?M)) (g, t))"
    by (simp only: time_rx_def seqs.simps)
  from ms_SeqD [OF this] obtain g1 r1 where 1: "(g1, r1) \<in> set (ms ?H (g, t))"
    and "(g', r) \<in> set (ms (Seq (Lit '':'') ?M) (g1, r1))" by blast
  from ms_SeqD [OF this(2)] obtain g2 r2 where 2: "(g2, r2) \<in> set (ms (Lit '':'') (g1, r1))"
    and 3: "(g', r) \<in> set (ms ?M (g2, r2))" by blast
  from ms_consumes [OF 1] obtain h where h: "t = h @ r1" "\<forall>c \<in> set h. chars_of ?H c" by blast
  from 2 have r1: "r1 = '':'' @ r2"
    by (rule ms_LitD)
  from ms_consumes [OF 3] obtain m where m: "r2 = m @ r" "\<forall>c \<in> set m. chars_of ?M c" by blast
  have H: "chars_of ?H c \<Longrightarrow> is_digit c" for c
    by (auto simp: is_digit_def in_range_code)
  have M: "chars_of ?M c \<Longrightarrow> is_digit c" for c
    by (auto simp: is_digit_def in_range_code)
  have "t = h @ '':'' @ m @ r"
    unfolding h(1) r1 m(1) ..
  moreover have "\<forall>c \<in> set h. is_digit c"
    using h(2) H by blast
  moreover have "\<forall>c \<in> set m. is_digit c"
    using m(2) M by blast
  ultimately show ?thesis
    by blast
qed

lemma split_at_first:
  "xs @ a # r = ys @ a # r' \<Longrightarrow> a \<notin> set xs \<Longrightarrow> a \<notin> set ys \<Longrightarrow> xs = ys \<and> r = r'"
proof (induction xs arbitrary: ys)
  case Nil
  then show ?case by (cases ys) auto
next
  case (Cons x xs)
  then show ?case by (cases ys) auto
qed

lemma time_text_shape:
  assumes "time_text e"
  shows "\<exists>h m. e = h @ '':'' @ m \<and> (\<forall>c \<in> set h. is_digit c) \<and> (\<forall>c \<in> set m. is_digit c)"
proof -
  from assms obtain g where "re_match time_rx e = Some (g, [])"
    by (auto simp: time_text_def strptime_def split: option.splits if_splits)
  then have "(g, []) \<in> set (ms time_rx ([], e))"
    by (auto simp: re_match_def first_match_def split: list.splits)
  from time_rx_shape [OF this] show ?thesis by simp
qed

lemma strptime_error: "strptime t = Inl err \<Longrightarrow> err = ValueError"
  by (auto simp: strptime_def split: option.splits if_splits)

lemma strptime_step:
  assumes "time_text e"
  shows "strptime (e @ CHR '':'' # d) = Inl ValueError"
proof (cases "re_match time_rx (e @ CHR '':'' # d)")
  case None
  then show ?thesis by (simp add: strptime_def)
next
  case (Some m)
  obtain g r where m: "m = (g, r)" by (cases m)
  have "r \<noteq> []"
  proof
    assume "r = []"
    with Some m have "(g, []) \<in> set (ms time_rx ([], e @ CHR '':'' # d))"
      by (auto simp: re_match_def first_match_def split: list.splits)
    from time_rx_shape [OF this] obtain h' m' where 1: "e @ CHR '':'' # d = h' @ '':'' @ m'"
      and h': "\<forall>c \<in> set h'. is_digit c" and m': "\<forall>c \<in> set m'. is_digit c" by auto
    from time_text_shape [OF assms] obtain h k where 2: "e = h @ '':'' @ k"
      and h: "\<forall>c \<in> set h. is_digit c" by auto
    have nd: "\<not> is_digit (CHR '':'')"
      by (simp add: is_digit_def in_range_code)
    from 1 2 have "h @ CHR '':'' # (k @ '':'' @ d) = h' @ CHR '':'' # m'"
      by simp
    from split_at_first [OF this] h h' nd have "k @ '':'' @ d = m'"
      by blast
    then have "CHR '':'' \<in> set m'" by auto
    with m' nd show False by blast
  qed
  with Some m show ?thesis by (simp add: strptime_def)
qed

lemma time_range_step:
  "time_text e \<Longrightarrow> time_range prefix s (e @ CHR '':'' # d) step = Some (Inl ValueError)"
  by (cases "strptime s") (auto simp: time_range_def strptime_step dest: strptime_error)

lemma numeric_range_colon:
  "CHR '':'' \<in> set e \<Longrightarrow> digits s \<Longrightarrow> numeric_range prefix s e step = Inl ValueError"
  by (simp add: numeric_range_def py_int_digits py_int_colon)

lemma time_text_start:
  assumes "time_text s"
  shows "bound_text s \<and> \<not> py_isdigit s \<and> CHR '':'' \<in> set s"
proof -
  from time_text_shape [OF assms] obtain h m where s: "s = h @ '':'' @ m"
    and "\<forall>c \<in> set h. is_digit c" "\<forall>c \<in> set m. is_digit c" by auto
  then have "\<forall>c \<in> set s. bound_char c"
    using digit_facts by (auto simp: bound_char_def)
  then show ?thesis
    using s by (auto simp: bound_text_def py_isdigit_def is_digit_def in_range_code)
qed

lemma letter_text_start:
  assumes "letter_text s"
  shows "bound_text s \<and> \<not> py_isdigit s \<and> CHR '':'' \<notin> set s \<and> length s = 1 \<and> py_isalpha s"
proof -
  from assms obtain c where s: "s = [c]"
    and c: "in_range (CHR ''A'') (CHR ''Z'') c \<or> in_range (CHR ''a'') (CHR ''z'') c"
    by (cases s) (auto simp: letter_text_def)
  from c show ?thesis
    unfolding s
    by (auto simp: bound_text_def bound_char_def py_isdigit_def py_isalpha_def is_digit_def
        is_upper_def is_lower_def in_range_code)
qed

lemma prefixed_step_rejected:
  assumes "prefix_text p" "spaces ws" "range_bounds s e" "digits d"
  shows "interpret_template_string (prefixed_template p ws s e (Some d) @ tail) = Some (Inl ValueError)"
proof -
  let ?e = "e @ step_suffix (Some d)"
  have c: "CHR '':'' \<in> set ?e"
    by (simp add: step_suffix_def)
  have st: "step_token (Some d)"
    using assms(4) by (simp add: step_token_def)
  from assms(3) consider "digits s" "digits e" | "time_text s" "time_text e"
    | "letter_text s" "letter_text e"
    by (auto simp: range_bounds_def)
  then show ?thesis
  proof cases
    case 1
    note b = bound_text_step [OF digits_bound_text [OF 1(2)] st]
    show ?thesis
      using interpret_prefixed [OF assms(1,2) digits_bound_text [OF 1(1)] b, of tail]
        digits_py_isdigit [OF 1(1)] numeric_range_colon [OF c 1(1)]
      by (simp add: prefixed_template_def)
  next
    case 2
    note s = time_text_start [OF 2(1)]
    note b = bound_text_step [OF time_text_start [OF 2(2), THEN conjunct1] st]
    show ?thesis
      using interpret_prefixed [OF assms(1,2) s [THEN conjunct1] b, of tail] s
        time_range_step [OF 2(2), of "py_strip p" s d 1]
      by (simp add: prefixed_template_def step_suffix_def)
  next
    case 3
    note s = letter_text_start [OF 3(1)]
    note b = bound_text_step [OF letter_text_start [OF 3(2), THEN conjunct1] st]
    show ?thesis
      using interpret_prefixed [OF assms(1,2) s [THEN conjunct1] b, of tail] s
        letter_range_colon [OF c]
      by (simp add: prefixed_template_def)
  qed
qed


section \<open>Ill-formed bounds\<close>

lemma py_int_bad_char:
  assumes "x \<in> set t" "\<not> int_space x" "\<not> is_digit x" "x \<noteq> CHR ''_''" "x \<noteq> CHR ''+''" "x \<noteq> CHR ''-''"
  shows "py_int t = Inl ValueError"
proof -
  let ?t = "rev (dropWhile int_space (rev (dropWhile int_space t)))"
  let ?u = "if ?t \<noteq> [] \<and> (hd ?t = CHR ''+'' \<or> hd ?t = CHR ''-'') then tl ?t else ?t"
  have "x \<in> set (dropWhile int_space t)"
    using assms(1,2) by (rule in_dropWhile)
  then have "x \<in> set (rev (dropWhile int_space t))"
    by simp
  then have "x \<in> set (dropWhile int_space (rev (dropWhile int_space t)))"
    using assms(2) by (rule in_dropWhile)
  then have t: "x \<in> set ?t"
    by simp
  have u: "x \<in> set ?u"
  proof (cases ?t)
    case Nil
    with t show ?thesis by simp
  next
    case (Cons y ys)
    with t assms(5,6) show ?thesis by auto
  qed
  have "\<not> int_body ?u"
  proof
    assume "int_body ?u"
    from int_body_chars [OF this] u have "is_digit x \<or> x = CHR ''_''"
      by (rule bspec)
    with assms(3,4) show False by simp
  qed
  then show ?thesis
    by (simp add: py_int_def Let_def)
qed

lemma bound_not_sign:
  "bound_char c \<Longrightarrow> \<not> int_space c \<and> c \<noteq> CHR ''_'' \<and> c \<noteq> CHR ''+'' \<and> c \<noteq> CHR ''-''"
  by (auto simp: bound_char_def int_space_def in_range_code)

lemma py_int_not_digits:
  assumes "bound_text e" "\<not> digits e"
  shows "py_int e = Inl ValueError"
proof -
  from assms obtain x where x: "x \<in> set e" "\<not> is_digit x" "bound_char x"
    by (auto simp: bound_text_def digits_def)
  with bound_not_sign [OF x(3)] show ?thesis
    by (intro py_int_bad_char [of x]) simp_all
qed

lemma uppercase_members: "c \<in> set ascii_uppercase \<Longrightarrow> in_range (CHR ''A'') (CHR ''Z'') c"
  by (auto simp: ascii_uppercase_def in_range_code)

lemma lowercase_members: "c \<in> set ascii_lowercase \<Longrightarrow> in_range (CHR ''a'') (CHR ''z'') c"
  by (auto simp: ascii_lowercase_def in_range_code)

lemma letter_isupper:
  "in_range (CHR ''A'') (CHR ''Z'') c \<or> in_range (CHR ''a'') (CHR ''z'') c \<Longrightarrow>
   py_isupper [c] = in_range (CHR ''A'') (CHR ''Z'') c"
  by (auto simp: py_isupper_def is_upper_def is_lower_def in_range_code)

lemma letter_case_mismatch:
  assumes "letter_text s" "letter_text e" "py_isupper s \<noteq> py_isupper e"
  shows "py_index (alphabet_of s) e = Inl ValueError"
proof -
  from assms(1) obtain a where s: "s = [a]"
    and a: "in_range (CHR ''A'') (CHR ''Z'') a \<or> in_range (CHR ''a'') (CHR ''z'') a"
    by (cases s) (auto simp: letter_text_def)
  from assms(2) obtain c where e: "e = [c]"
    and c: "in_range (CHR ''A'') (CHR ''Z'') c \<or> in_range (CHR ''a'') (CHR ''z'') c"
    by (cases e) (auto simp: letter_text_def)
  have ne: "in_range (CHR ''A'') (CHR ''Z'') a \<noteq> in_range (CHR ''A'') (CHR ''Z'') c"
    using assms(3) letter_isupper [OF a] letter_isupper [OF c] unfolding s e by simp
  have "c \<notin> set (alphabet_of s)"
  proof (cases "in_range (CHR ''A'') (CHR ''Z'') a")
    case True
    with ne have "\<not> in_range (CHR ''A'') (CHR ''Z'') c" by simp
    then have "c \<notin> set ascii_uppercase"
      using uppercase_members by blast
    with True show ?thesis
      unfolding s alphabet_of_def letter_isupper [OF a] by simp
  next
    case False
    with ne have "in_range (CHR ''A'') (CHR ''Z'') c" by simp
    then have "\<not> in_range (CHR ''a'') (CHR ''z'') c"
      by (auto simp: in_range_code)
    then have "c \<notin> set ascii_lowercase"
      using lowercase_members by blast
    with False show ?thesis
      unfolding s alphabet_of_def letter_isupper [OF a] by simp
  qed
  then have "find_from 0 e (alphabet_of s) = None"
    using find_from_subset [of 0 e "alphabet_of s"] unfolding e
    by (cases "find_from 0 [c] (alphabet_of s)") auto
  then show ?thesis by (simp add: py_index_def)
qed

lemma letter_range_mismatch:
  assumes "letter_text s" "letter_text e" "py_isupper s \<noteq> py_isupper e"
  shows "letter_range prefix s e step = Inl ValueError"
proof (cases "py_index (alphabet_of s) s")
  case (Inl err)
  then have "err = ValueError"
    by (auto simp: py_index_def split: option.splits)
  with Inl show ?thesis by (simp add: letter_range_def)
next
  case (Inr i)
  then show ?thesis by (simp add: letter_range_def letter_case_mismatch [OF assms])
qed

lemma time_range_bad:
  "\<not> (time_text s \<and> time_text e) \<Longrightarrow> time_range prefix s e step = Some (Inl ValueError)"
  by (cases "strptime s"; cases "strptime e")
     (auto simp: time_range_def time_text_def dest: strptime_error)

lemma colon_not_isdigit:
  assumes "CHR '':'' \<in> set s"
  shows "\<not> py_isdigit s"
proof
  assume "py_isdigit s"
  then have "\<forall>c \<in> set s. is_digit c \<or> c = CHR 0xB2 \<or> c = CHR 0xB3 \<or> c = CHR 0xB9"
    by (simp add: py_isdigit_def)
  from this assms have "is_digit (CHR '':'') \<or> CHR '':'' = CHR 0xB2 \<or> CHR '':'' = CHR 0xB3 \<or> CHR '':'' = CHR 0xB9"
    by (rule bspec)
  then show False
    by (simp add: is_digit_def in_range_code)
qed

section \<open>The shape of a prefixed match\<close>




section \<open>What the condition can read, and what happens when it fails\<close>

lemma eval_expr_coincidence:
  "\<forall>x \<in> names_of e. ns x = ns' x \<Longrightarrow> eval_expr e ns = eval_expr e ns'"
  by (induction e) (auto split: option.splits sum.splits)

lemma arith_modelled:
  "\<not> is_str v \<Longrightarrow> \<not> is_str w \<Longrightarrow>
   \<exists>res. arith f v w = Some res \<and> (\<forall>u. res = Inr u \<longrightarrow> \<not> is_str u)"
  by (cases f; cases v; cases w) (auto simp: arith_def)

lemma compare_modelled:
  "\<not> is_str v \<Longrightarrow> \<not> is_str w \<Longrightarrow>
   \<exists>res. compare c v w = Some res \<and> (\<forall>u. res = Inr u \<longrightarrow> \<not> is_str u)"
  by (cases c; cases v; cases w) (auto simp: compare_def)

lemma eval_expr_modelled:
  assumes "\<forall>x \<in> names_of e. \<exists>v. ns x = Bound v \<and> \<not> is_str v"
  shows "\<exists>res. eval_expr e ns = Some res \<and> (\<forall>u. res = Inr u \<longrightarrow> \<not> is_str u)"
  using assms
proof (induction e)
  case (Neg e)
  then obtain res where "eval_expr e ns = Some res" "\<forall>u. res = Inr u \<longrightarrow> \<not> is_str u" by auto
  then show ?case by (cases res) (auto split: option.splits)
next
  case (Pos e)
  then obtain res where "eval_expr e ns = Some res" "\<forall>u. res = Inr u \<longrightarrow> \<not> is_str u" by auto
  then show ?case by (cases res) (auto split: option.splits)
next
  case (Not e)
  then obtain res where "eval_expr e ns = Some res" by auto
  then show ?case by (cases res) auto
next
  case (Bin f a b)
  then obtain ra rb where a: "eval_expr a ns = Some ra" "\<forall>u. ra = Inr u \<longrightarrow> \<not> is_str u"
    and b: "eval_expr b ns = Some rb" "\<forall>u. rb = Inr u \<longrightarrow> \<not> is_str u" by auto
  show ?case
  proof (cases ra)
    case (Inl err)
    with a show ?thesis by simp
  next
    case (Inr v)
    note v = this
    show ?thesis
    proof (cases rb)
      case (Inl err)
      with a b v show ?thesis by simp
    next
      case (Inr w)
      with a b v arith_modelled [of v w f] show ?thesis by simp
    qed
  qed
next
  case (Cmp c a b)
  then obtain ra rb where a: "eval_expr a ns = Some ra" "\<forall>u. ra = Inr u \<longrightarrow> \<not> is_str u"
    and b: "eval_expr b ns = Some rb" "\<forall>u. rb = Inr u \<longrightarrow> \<not> is_str u" by auto
  show ?case
  proof (cases ra)
    case (Inl err)
    with a show ?thesis by simp
  next
    case (Inr v)
    note v = this
    show ?thesis
    proof (cases rb)
      case (Inl err)
      with a b v show ?thesis by simp
    next
      case (Inr w)
      with a b v compare_modelled [of v w c] show ?thesis by simp
    qed
  qed
next
  case (And a b)
  then obtain ra rb where a: "eval_expr a ns = Some ra" "\<forall>u. ra = Inr u \<longrightarrow> \<not> is_str u"
    and b: "eval_expr b ns = Some rb" "\<forall>u. rb = Inr u \<longrightarrow> \<not> is_str u" by auto
  then show ?case by (cases ra) auto
next
  case (Or a b)
  then obtain ra rb where a: "eval_expr a ns = Some ra" "\<forall>u. ra = Inr u \<longrightarrow> \<not> is_str u"
    and b: "eval_expr b ns = Some rb" "\<forall>u. rb = Inr u \<longrightarrow> \<not> is_str u" by auto
  then show ?case by (cases ra) auto
qed auto

lemma parse_expr_nonempty: "parse_expr text = Some e \<Longrightarrow> text \<noteq> []"
proof
  assume "parse_expr text = Some e" "text = []"
  moreover have "parse_expr [] = None" by code_simp
  ultimately show False by simp
qed

lemma py_eval_index_only:
  assumes "parse_expr text = Some e" "names_of e \<subseteq> {''i''}" "x \<noteq> ''i''"
  shows "py_eval other text (ns(''i'' := Bound (VInt k), x := Bound v)) =
         py_eval other' text (ns'(''i'' := Bound (VInt k), x := Bound v'))"
proof -
  let ?a = "ns(''i'' := Bound (VInt k), x := Bound v)"
  let ?b = "ns'(''i'' := Bound (VInt k), x := Bound v')"
  have "\<forall>y \<in> names_of e. \<exists>u. ?a y = Bound u \<and> \<not> is_str u"
    using assms(2,3) by auto
  from eval_expr_modelled [OF this] obtain res where res: "eval_expr e ?a = Some res" by blast
  have "eval_expr e ?a = eval_expr e ?b"
    using assms(2,3) by (intro eval_expr_coincidence) auto
  with res have "eval_expr e ?b = Some res"
    by simp
  with res show ?thesis
    unfolding py_eval_def assms(1) by simp
qed

lemma remove_loop_index_only:
  assumes "parse_expr text = Some e" "names_of e \<subseteq> {''i''}" "length names = length names'"
  shows "map fst (remove_loop (py_eval other) (Some text) amb k names) =
         map fst (remove_loop (py_eval other') (Some text) amb' k names')"
  using assms(3)
proof (induction names names' arbitrary: k rule: list_induct2)
  case Nil
  show ?case by simp
next
  case (Cons nm names nm' names')
  have "py_eval other text ((amb k)(''i'' := Bound (VInt (int k)), ''name'' := Bound (VStr nm))) =
        py_eval other' text ((amb' k)(''i'' := Bound (VInt (int k)), ''name'' := Bound (VStr nm')))"
    using assms(1,2) by (rule py_eval_index_only) simp
  then show ?case
    using Cons.IH [of "Suc k"] parse_expr_nonempty [OF assms(1)]
    by (simp split: sum.splits)
qed

lemma preview_loop_index_only:
  assumes "parse_expr text = Some e" "names_of e \<subseteq> {''i''}" "length names = length names'"
  shows "map_sum id (map fst) (preview_loop (py_eval other) (Some text) amb k names) =
         map_sum id (map fst) (preview_loop (py_eval other') (Some text) amb' k names')"
  using assms(3)
proof (induction names names' arbitrary: k rule: list_induct2)
  case Nil
  show ?case by simp
next
  case (Cons nm names nm' names')
  have "py_eval other text ((amb k)(''i'' := Bound (VInt (int k)), ''nm'' := Bound (VStr nm))) =
        py_eval other' text ((amb' k)(''i'' := Bound (VInt (int k)), ''nm'' := Bound (VStr nm')))"
    using assms(1,2) by (rule py_eval_index_only) simp
  then show ?case
    using Cons.IH [of "Suc k"] parse_expr_nonempty [OF assms(1)]
    by (auto split: sum.splits)
qed

text \<open>
  Claim C2, as the code has it. The condition is evaluated by \<^verbatim>\<open>eval\<close> in the namespace of
  the command. When the text is an expression of the fragment that names no variable but
  \<^verbatim>\<open>i\<close>, the indices kept depend on the text and the length of the sequence only: two
  runs agree whatever the elements are and whatever else the namespace holds.
\<close>

theorem filter_reads_index_only:
  assumes "parse_expr text = Some e" "names_of e \<subseteq> {''i''}" "length names = length names'"
  shows "map fst (remove_channels_filter (py_eval other) (Some text) amb names) =
           map fst (remove_channels_filter (py_eval other') (Some text) amb' names')
       \<and> map_sum id (map fst) (preview_template_filter (py_eval other) (Some text) amb names) =
           map_sum id (map fst) (preview_template_filter (py_eval other') (Some text) amb' names')"
  unfolding remove_channels_filter_def preview_template_filter_def
  using remove_loop_index_only [OF assms] preview_loop_index_only [OF assms] by blast

lemma parse_category_name: "parse_expr ''category_name'' = Some (Name ''category_name'')"
  by code_simp

theorem ambient_state_counterexample:
  "remove_channels_filter (py_eval (\<lambda>t ns. Inl NameError)) (Some ''category_name'')
     (\<lambda>k. (\<lambda>x. Unbound)(''category_name'' := Bound VNone)) [''a'', ''b''] = []
   \<and> remove_channels_filter (py_eval (\<lambda>t ns. Inl NameError)) (Some ''category_name'')
     (\<lambda>k. (\<lambda>x. Unbound)(''category_name'' := Bound (VStr ''General''))) [''a'', ''b'']
       = [(1, ''a''), (2, ''b'')]"
  by (simp add: remove_channels_filter_def py_eval_def parse_category_name)

lemma names_even: "names_of (Cmp Eq (Bin Mod (Name ''i'') (Num 2)) (Num 0)) \<subseteq> {''i''}"
  by simp

lemma even_of_four:
  "remove_channels_filter (py_eval (\<lambda>t ns. Inl NameError)) (Some ''i % 2 == 0'') (\<lambda>k x. Unbound)
     [''a'', ''b'', ''c'', ''d''] = [(2, ''b''), (4, ''d'')]"
  by (simp add: remove_channels_filter_def eval_even)

theorem filter_reads_index_only_witness:
  "map fst (remove_channels_filter (py_eval (\<lambda>t ns. Inl TypeError)) (Some ''i % 2 == 0'')
      (\<lambda>k. (\<lambda>x. Unbound)(''category_name'' := Bound (VStr ''General''))) [''w'', ''x'', ''y'', ''z''])
   = [2, 4]"
  using filter_reads_index_only [OF parse_even names_even,
      of "[''w'', ''x'', ''y'', ''z'']" "[''a'', ''b'', ''c'', ''d'']" "\<lambda>t ns. Inl TypeError"
         "\<lambda>k. (\<lambda>x. Unbound)(''category_name'' := Bound (VStr ''General''))"
         "\<lambda>t ns. Inl NameError" "\<lambda>k x. Unbound", THEN conjunct1]
  by (simp add: even_of_four)

lemma remove_loop_is_filter:
  "cond \<noteq> [] \<Longrightarrow>
   remove_loop ev (Some cond) amb k names =
     filter (\<lambda>(i, name).
               case ev cond ((amb i)(''i'' := Bound (VInt (int i)), ''name'' := Bound (VStr name))) of
                 Inl err \<Rightarrow> False | Inr v \<Rightarrow> truthy v)
       (enumerate k names)"
  by (induction names arbitrary: k) (simp_all split: sum.splits)

lemma parse_division: "parse_expr ''10 // (i - 2) > 0'' =
    Some (Cmp Gt (Bin FloorDiv (Num 10) (Bin Sub (Name ''i'') (Num 2))) (Num 0))"
  by code_simp

lemma eval_division:
  "x \<noteq> ''i'' \<Longrightarrow>
   py_eval other ''10 // (i - 2) > 0'' (ns(''i'' := Bound (VInt k), x := Bound (VStr nm))) =
     (if k = 2 then Inl ZeroDivisionError else Inr (VBool (10 div (k - 2) > 0)))"
  by (simp add: py_eval_def parse_division arith_def compare_def)

text \<open>
  Claim C6 holds in \<^verbatim>\<open>remove_channels\<close>, whose loop catches every exception of the condition
  and goes on (lemma \<open>remove_loop_is_filter\<close>). In \<^verbatim>\<open>preview_template\<close> the call of \<^verbatim>\<open>eval\<close>
  is not guarded: the first index at which the condition raises ends the loop, nothing is
  kept, and the exception reaches the handler that reports it. On three elements, with a
  condition that divides by zero at index 2:
\<close>

theorem preview_stops_at_failing_index:
  "remove_channels_filter (py_eval other) (Some ''10 // (i - 2) > 0'') amb [''1'', ''2'', ''3'']
     = [(3, ''3'')]
   \<and> preview_template_filter (py_eval other) (Some ''10 // (i - 2) > 0'') amb [''1'', ''2'', ''3'']
     = Inl ZeroDivisionError"
  by (simp add: remove_channels_filter_def preview_template_filter_def eval_division)

theorem preview_stops_at_failing_index_witness:
  "preview_template_filter (py_eval (\<lambda>t ns. Inl NameError)) (Some ''10 // (i - 2) > 0'')
     (\<lambda>k x. Unbound) [''1'', ''2'', ''3''] = Inl ZeroDivisionError"
  using preview_stops_at_failing_index [of "\<lambda>t ns. Inl NameError" "\<lambda>k x. Unbound"]
  by simp

section \<open>Brace groups\<close>

lemma concat_first:
  "\<forall>x \<in> set xs. f x = [] \<Longrightarrow> f y = z # zs \<Longrightarrow> \<exists>t. concat (map f (xs @ y # ys)) = z # t"
  by (induction xs) auto

lemma lazy_upto:
  assumes "\<forall>x \<in> set u. p x"
  shows "\<exists>ks. [0..<Suc (length (takeWhile p (u @ c # r)))] = [0..<length u] @ length u # ks"
proof -
  have "takeWhile p (u @ c # r) = u @ takeWhile p (c # r)"
    using assms by (simp add: takeWhile_append2)
  then have "length u \<le> length (takeWhile p (u @ c # r))"
    by simp
  then have "[0..<Suc (length (takeWhile p (u @ c # r)))] =
               [0..<length u] @ [length u..<Suc (length (takeWhile p (u @ c # r)))]"
    by (metis le_imp_less_Suc less_imp_le_nat upt_add_eq_append le0 le_Suc_ex)
  moreover have "[length u..<Suc (length (takeWhile p (u @ c # r)))] =
                   length u # [Suc (length u)..<Suc (length (takeWhile p (u @ c # r)))]"
    using \<open>length u \<le> _\<close> by (simp add: upt_conv_Cons del: upt_Suc)
  ultimately show ?thesis by simp
qed

lemma first_lazy_until:
  assumes "\<forall>x \<in> set u. p x \<and> x \<noteq> c"
  shows "first_match (Seq (StarLazy p) (Lit [c])) (g, u @ c # r) = Some (g, r)"
proof -
  let ?s = "u @ c # r"
  let ?f = "\<lambda>k. ms (Lit [c]) (g, drop k ?s)"
  from assms have "\<forall>x \<in> set u. p x" by blast
  from lazy_upto [OF this] obtain ks where
    ks: "[0..<Suc (length (takeWhile p ?s))] = [0..<length u] @ length u # ks" by blast
  have 1: "\<forall>k \<in> set [0..<length u]. ?f k = []"
  proof
    fix k assume "k \<in> set [0..<length u]"
    then have k: "k < length u" by simp
    then have "drop k ?s = u ! k # drop (Suc k) u @ c # r"
      by (simp add: Cons_nth_drop_Suc)
    moreover have "u ! k \<noteq> c" using assms k by simp
    ultimately show "?f k = []" by (simp add: startswith_def)
  qed
  have 2: "?f (length u) = (g, r) # []"
    by (simp add: startswith_def)
  from concat_first [of "[0..<length u]" ?f "length u" "(g, r)" "[]" ks, OF 1 2]
  obtain t where "concat (map ?f ([0..<length u] @ length u # ks)) = (g, r) # t" by blast
  moreover have "ms (Seq (StarLazy p) (Lit [c])) (g, ?s) =
      concat (map ?f ([0..<length u] @ length u # ks))"
    by (simp only: ms.simps map_map comp_def ks)
  ultimately have "ms (Seq (StarLazy p) (Lit [c])) (g, ?s) = (g, r) # t"
    by (simp only:)
  then show ?thesis by (simp add: first_match_def)
qed

lemma first_lazy_group_until:
  assumes "\<forall>x \<in> set u. p x \<and> x \<noteq> c"
  shows "first_match (Seq (Grp n (StarLazy p)) (Lit [c])) (g, u @ c # r) = Some ((n, u) # g, r)"
proof -
  let ?s = "u @ c # r"
  let ?f = "\<lambda>k. ms (Lit [c]) ((n, take (length ?s - length (drop k ?s)) ?s) # g, drop k ?s)"
  from assms have "\<forall>x \<in> set u. p x" by blast
  from lazy_upto [OF this] obtain ks where
    ks: "[0..<Suc (length (takeWhile p ?s))] = [0..<length u] @ length u # ks" by blast
  have 1: "\<forall>k \<in> set [0..<length u]. ?f k = []"
  proof
    fix k assume "k \<in> set [0..<length u]"
    then have k: "k < length u" by simp
    then have "drop k ?s = u ! k # drop (Suc k) u @ c # r"
      by (simp add: Cons_nth_drop_Suc)
    moreover have "u ! k \<noteq> c" using assms k by simp
    ultimately show "?f k = []" by (simp add: startswith_def)
  qed
  have 2: "?f (length u) = ((n, u) # g, r) # []"
    by (simp add: startswith_def)
  from concat_first [of "[0..<length u]" ?f "length u" "((n, u) # g, r)" "[]" ks, OF 1 2]
  obtain t where "concat (map ?f ([0..<length u] @ length u # ks)) = ((n, u) # g, r) # t" by blast
  moreover have "ms (Seq (Grp n (StarLazy p)) (Lit [c])) (g, ?s) =
      concat (map ?f ([0..<length u] @ length u # ks))"
    by (simp only: ms.simps map_map comp_def ks prod.case)
  ultimately have "ms (Seq (Grp n (StarLazy p)) (Lit [c])) (g, ?s) = ((n, u) # g, r) # t"
    by (simp only:)
  then show ?thesis by (simp add: first_match_def)
qed

lemma first_brace_group:
  assumes "\<forall>x \<in> set u. dot x \<and> x \<noteq> CHR ''}''"
  shows "first_match brace_group_rx ([], ''{'' @ u @ ''}'' @ rest) = Some ([(1, u)], rest)"
proof -
  have a: "first_match (Lit ''{'') ([], ''{'' @ u @ ''}'' @ rest) = Some ([], u @ ''}'' @ rest)"
    by (rule first_Lit)
  have "first_match (Seq (Grp 1 (StarLazy dot)) (Lit ''}'')) ([], u @ CHR ''}'' # rest) = Some ([(1, u)], rest)"
    using assms by (rule first_lazy_group_until)
  then have b: "first_match (Seq (Grp 1 (StarLazy dot)) (Lit ''}'')) ([], u @ ''}'' @ rest) = Some ([(1, u)], rest)"
    by simp
  show ?thesis
    unfolding brace_group_rx_def seqs.simps using a b by (rule first_Seq)
qed

lemma first_brace:
  assumes "\<forall>x \<in> set u. dot x \<and> x \<noteq> CHR ''}''"
  shows "first_match brace_rx ([], ''{'' @ u @ ''}'' @ rest) = Some ([], rest)"
proof -
  have a: "first_match (Lit ''{'') ([], ''{'' @ u @ ''}'' @ rest) = Some ([], u @ ''}'' @ rest)"
    by (rule first_Lit)
  have "first_match (Seq (StarLazy dot) (Lit ''}'')) ([], u @ CHR ''}'' # rest) = Some ([], rest)"
    using assms by (rule first_lazy_until)
  then have b: "first_match (Seq (StarLazy dot) (Lit ''}'')) ([], u @ ''}'' @ rest) = Some ([], rest)"
    by simp
  show ?thesis
    unfolding brace_rx_def seqs.simps using a b by (rule first_Seq)
qed

lemma no_brace_no_match:
  "c \<noteq> CHR ''{'' \<Longrightarrow> ms brace_group_rx (g, c # s) = [] \<and> ms brace_rx (g, c # s) = []"
  by (simp add: brace_group_rx_def brace_rx_def startswith_def)

lemma empty_no_match: "ms brace_group_rx (g, []) = [] \<and> ms brace_rx (g, []) = []"
  by (simp add: brace_group_rx_def brace_rx_def startswith_def)

lemma re_search_at:
  assumes "\<And>c s. c \<in> set lit \<Longrightarrow> ms r ([], c # s) = []"
    and "first_match r ([], x # s) = Some (g, rest)"
  shows "re_search r (lit @ x # s) = Some (lit, g, rest)"
  using assms(1)
proof (induction lit)
  case Nil
  from assms(2) show ?case
    by (auto simp: first_match_def split: list.splits)
next
  case (Cons c lit)
  then show ?case by simp
qed

lemma re_search_none:
  assumes "\<And>c s. c \<in> set lit \<Longrightarrow> ms r ([], c # s) = []" and "ms r ([], []) = []"
  shows "re_search r lit = None"
  using assms(1) by (induction lit) (simp_all add: assms(2))

lemma search_brace_group:
  assumes "brace_free lit" "\<forall>x \<in> set u. dot x \<and> x \<noteq> CHR ''}''"
  shows "re_search brace_group_rx (lit @ ''{'' @ u @ ''}'' @ rest) = Some (lit, [(1, u)], rest)"
proof -
  have "re_search brace_group_rx (lit @ CHR ''{'' # (u @ ''}'' @ rest)) = Some (lit, [(1, u)], rest)"
  proof (rule re_search_at)
    show "ms brace_group_rx ([], c # s) = []" if "c \<in> set lit" for c s
      using that assms(1) no_brace_no_match [of c "[]" s] by (auto simp: brace_free_def)
    show "first_match brace_group_rx ([], CHR ''{'' # u @ ''}'' @ rest) = Some ([(1, u)], rest)"
      using first_brace_group [OF assms(2), of rest] by simp
  qed
  then show ?thesis by simp
qed

lemma search_brace:
  assumes "brace_free lit" "\<forall>x \<in> set u. dot x \<and> x \<noteq> CHR ''}''"
  shows "re_search brace_rx (lit @ ''{'' @ u @ ''}'' @ rest) = Some (lit, [], rest)"
proof -
  have "re_search brace_rx (lit @ CHR ''{'' # (u @ ''}'' @ rest)) = Some (lit, [], rest)"
  proof (rule re_search_at)
    show "ms brace_rx ([], c # s) = []" if "c \<in> set lit" for c s
      using that assms(1) no_brace_no_match [of c "[]" s] by (auto simp: brace_free_def)
    show "first_match brace_rx ([], CHR ''{'' # u @ ''}'' @ rest) = Some ([], rest)"
      using first_brace [OF assms(2), of rest] by simp
  qed
  then show ?thesis by simp
qed

lemma search_brace_free:
  assumes "brace_free lit"
  shows "re_search brace_group_rx lit = None"
proof (rule re_search_none)
  show "ms brace_group_rx ([], c # s) = []" if "c \<in> set lit" for c s
    using that assms no_brace_no_match [of c "[]" s] by (auto simp: brace_free_def)
  show "ms brace_group_rx ([], []) = []"
    using empty_no_match by blast
qed

lemma sub_brace:
  assumes "brace_free lit" "\<forall>x \<in> set u. dot x \<and> x \<noteq> CHR ''}''"
  shows "re_sub_first brace_rx v (lit @ ''{'' @ u @ ''}'' @ rest) = lit @ v @ rest"
  by (simp only: re_sub_first_def search_brace [OF assms] option.case prod.case)

lemma digit_plain: "is_digit x \<Longrightarrow> dot x \<and> x \<noteq> CHR ''}'' \<and> x \<noteq> CHR ''{'' \<and> x \<noteq> CHR ''.''"
  by (auto simp: dot_def is_digit_def in_range_code)

lemma letter_plain:
  "in_range (CHR ''A'') (CHR ''Z'') x \<or> in_range (CHR ''a'') (CHR ''z'') x \<Longrightarrow>
   dot x \<and> x \<noteq> CHR ''}'' \<and> x \<noteq> CHR ''{'' \<and> x \<noteq> CHR ''.'' \<and> \<not> is_digit x"
  by (auto simp: dot_def is_digit_def in_range_code)

lemma axis_text_chars:
  assumes "axis_ok a"
  shows "\<forall>x \<in> set (axis_text a). dot x \<and> x \<noteq> CHR ''}''"
proof (cases a)
  case (Numbers s e)
  with assms have "\<forall>x \<in> set s \<union> set e. is_digit x"
    by (auto simp: digits_def)
  then have "\<forall>x \<in> set s \<union> set e. dot x \<and> x \<noteq> CHR ''}''"
    using digit_plain by blast
  with Numbers show ?thesis by (auto simp: dot_def)
next
  case (Letters x y)
  with assms have "\<forall>c \<in> {x, y}. in_range (CHR ''A'') (CHR ''Z'') c \<or> in_range (CHR ''a'') (CHR ''z'') c"
    using uppercase_members lowercase_members by auto
  then have "\<forall>c \<in> {x, y}. dot c \<and> c \<noteq> CHR ''}''"
    using letter_plain by blast
  with Letters show ?thesis by (auto simp: dot_def)
qed

lemma findall_grid:
  assumes "brace_free lit" "\<forall>(a, lit') \<in> set segs. axis_ok a \<and> brace_free lit'"
  shows "re_findall brace_group_rx (grid_template lit segs) = map (\<lambda>(a, lit'). axis_text a) segs"
  using assms
proof (induction segs arbitrary: lit)
  case Nil
  then show ?case
    by (subst re_findall.simps) (simp add: search_brace_free)
next
  case (Cons seg segs)
  obtain a lit' where seg: "seg = (a, lit')" by (cases seg)
  from Cons.prems seg have ok: "axis_ok a" "brace_free lit'" by auto
  have s: "re_search brace_group_rx (lit @ ''{'' @ axis_text a @ ''}'' @ grid_template lit' segs) =
             Some (lit, [(1, axis_text a)], grid_template lit' segs)"
    using Cons.prems(1) axis_text_chars [OF ok(1)] by (rule search_brace_group)
  have "re_findall brace_group_rx (grid_template lit' segs) = map (\<lambda>(a, lit'). axis_text a) segs"
    using ok(2) Cons.prems(2) by (intro Cons.IH) auto
  moreover have "re_findall brace_group_rx (lit @ ''{'' @ axis_text a @ ''}'' @ grid_template lit' segs) =
      group_text [(1, axis_text a)] 1 # re_findall brace_group_rx (grid_template lit' segs)"
    by (subst re_findall.simps) (simp only: s option.case prod.case, simp)
  ultimately show ?case
    unfolding seg grid_template.simps by (simp add: group_text_def)
qed

lemma grid_template_prepend: "grid_template (x @ lit) segs = x @ grid_template lit segs"
  by (cases segs) auto

lemma substitute_prepend: "substitute (x @ lit) segs combo = x @ substitute lit segs combo"
  by (simp add: substitute_def)

lemma fill_grid:
  assumes "brace_free lit" "\<forall>(a, lit') \<in> set segs. axis_ok a \<and> brace_free lit'"
    and "length combo = length segs" "\<forall>v \<in> set combo. brace_free v"
  shows "fill (grid_template lit segs) combo = substitute lit segs combo"
  using assms(3,1,2,4)
proof (induction combo segs arbitrary: lit rule: list_induct2)
  case Nil
  show ?case by (simp add: fill_def substitute_def)
next
  case (Cons v vs seg segs)
  obtain a lit' where seg: "seg = (a, lit')" by (cases seg)
  from Cons.prems seg have ok: "axis_ok a" "brace_free lit'" "brace_free v" by auto
  have sub: "re_sub_first brace_rx v (lit @ ''{'' @ axis_text a @ ''}'' @ grid_template lit' segs) =
               lit @ v @ grid_template lit' segs"
    using Cons.prems(1) axis_text_chars [OF ok(1)] by (rule sub_brace)
  have "brace_free (lit @ v @ lit')"
    using Cons.prems(1) ok by (simp add: brace_free_def)
  then have "fill (grid_template (lit @ v @ lit') segs) vs = substitute (lit @ v @ lit') segs vs"
    using Cons.prems by (intro Cons.IH) auto
  then have "fill (lit @ v @ grid_template lit' segs) vs = lit @ v @ substitute lit' segs vs"
    using grid_template_prepend [of "lit @ v" lit' segs] substitute_prepend [of "lit @ v" lit' segs vs]
    by simp
  moreover have "fill (lit @ ''{'' @ axis_text a @ ''}'' @ grid_template lit' segs) (v # vs) =
      fill (re_sub_first brace_rx v (lit @ ''{'' @ axis_text a @ ''}'' @ grid_template lit' segs)) vs"
    by (simp only: fill_def foldl.simps)
  moreover have "substitute lit ((a, lit') # segs) (v # vs) = lit @ v @ substitute lit' segs vs"
    by (simp add: substitute_def)
  ultimately show ?case
    unfolding seg grid_template.simps sub by (simp only:)
qed

lemma split_no_dot:
  "CHR ''.'' \<notin> set a \<Longrightarrow> split_from ''...'' cur (a @ rest) = split_from ''...'' (cur @ a) rest"
proof (induction a arbitrary: cur)
  case Nil
  show ?case by simp
next
  case (Cons c a)
  from Cons.prems have c: "c \<noteq> CHR ''.''" and a: "CHR ''.'' \<notin> set a"
    by auto
  from c have "split_from ''...'' cur ((c # a) @ rest) = split_from ''...'' (cur @ [c]) (a @ rest)"
    by (subst split_from.simps) (simp add: startswith_def)
  with Cons.IH [OF a, of "cur @ [c]"] show ?case by simp
qed

lemma split_bounds:
  assumes "CHR ''.'' \<notin> set a" "CHR ''.'' \<notin> set b"
  shows "py_split (a @ ''...'' @ b) ''...'' = [a, b]"
proof -
  have "split_from ''...'' [] (a @ ''...'' @ b) = split_from ''...'' a (''...'' @ b)"
    using split_no_dot [OF assms(1), of "[]" "''...'' @ b"] by simp
  also have "\<dots> = a # split_from ''...'' [] b"
    by (subst split_from.simps) (simp add: startswith_def)
  also have "split_from ''...'' [] b = split_from ''...'' b []"
    using split_no_dot [OF assms(2), of "[]" "[]"] by simp
  also have "\<dots> = [b]"
    by (subst split_from.simps) simp
  finally show ?thesis by (simp add: py_split_def)
qed

lemma upto_as_map: "[lo..hi] = map (\<lambda>k. lo + int k) [0..<nat (hi - lo + 1)]"
  by (rule nth_equalityI) (auto simp: nth_upto)

lemma axis_numbers:
  assumes "digits a" "digits b"
  shows "axis (a @ ''...'' @ b) = Inr (map py_str [int (digits_val a)..int (digits_val b)])"
proof -
  have "CHR ''.'' \<notin> set a" "CHR ''.'' \<notin> set b"
    using assms digit_plain by (auto simp: digits_def)
  then have "py_split (a @ ''...'' @ b) ''...'' = [a, b]"
    by (rule split_bounds)
  moreover have "py_range (int (digits_val a)) (int (digits_val b) + 1) 1 =
      Inr [int (digits_val a)..int (digits_val b)]"
    by (simp add: py_range_def upto_as_map add.commute)
  ultimately show ?thesis
    using assms by (simp add: axis_def digits_py_isdigit py_int_digits)
qed

lemma sorted_slice:
  fixes xs :: "'a::linorder list"
  assumes "sorted_wrt (<) xs" "i < length xs" "j < length xs"
  shows "drop i (take (Suc j) xs) = filter (\<lambda>c. xs ! i \<le> c \<and> c \<le> xs ! j) xs"
proof -
  let ?P = "\<lambda>c. xs ! i \<le> c \<and> c \<le> xs ! j"
  have less: "xs ! k < xs ! l" if "k < l" "l < length xs" for k l
    using assms(1) that by (rule sorted_wrt_nth_less)
  show ?thesis
  proof (cases "i \<le> Suc j")
    case True
    let ?a = "take i xs" and ?m = "drop i (take (Suc j) xs)" and ?z = "drop (Suc j) xs"
    have "take i (take (Suc j) xs) = take i xs"
      using True by (simp add: min_def)
    then have "?a @ ?m = take (Suc j) xs"
      using append_take_drop_id [of i "take (Suc j) xs"] by simp
    then have "(?a @ ?m) @ ?z = take (Suc j) xs @ ?z"
      by (rule arg_cong [where f = "\<lambda>t. t @ ?z"])
    also have "\<dots> = xs"
      by (rule append_take_drop_id)
    finally have xs: "xs = ?a @ ?m @ ?z"
      by (simp only: append_assoc)
    have a: "filter ?P ?a = []"
    proof -
      have "\<not> ?P c" if "c \<in> set ?a" for c
      proof -
        from that obtain k where "k < length ?a" "c = ?a ! k"
          by (metis in_set_conv_nth)
        then have "k < i" "c = xs ! k"
          by simp_all
        with less [of k i] assms(2) show ?thesis by auto
      qed
      then show ?thesis by (simp add: filter_empty_conv)
    qed
    have z: "filter ?P ?z = []"
    proof -
      have "\<not> ?P c" if "c \<in> set ?z" for c
      proof -
        from that obtain k where "k < length ?z" "c = ?z ! k"
          by (metis in_set_conv_nth)
        then have "Suc j + k < length xs" "c = xs ! (Suc j + k)"
          by simp_all
        with less [of j "Suc j + k"] show ?thesis by auto
      qed
      then show ?thesis by (simp add: filter_empty_conv)
    qed
    have m: "filter ?P ?m = ?m"
    proof -
      have "?P c" if "c \<in> set ?m" for c
      proof -
        from that obtain k where "k < length ?m" "c = ?m ! k"
          by (metis in_set_conv_nth)
        then have k: "i + k < Suc j" "c = xs ! (i + k)"
          using assms(3) by simp_all
        have "xs ! i \<le> xs ! (i + k)"
          using less [of i "i + k"] k(1) assms(3) by (cases k) (auto intro: less_imp_le)
        moreover have "xs ! (i + k) \<le> xs ! j"
          using less [of "i + k" j] k(1) assms(3) by (cases "i + k = j") (auto intro: less_imp_le)
        ultimately show ?thesis using k(2) by simp
      qed
      then show ?thesis by (simp add: filter_id_conv)
    qed
    have "filter ?P xs = filter ?P ?a @ filter ?P ?m @ filter ?P ?z"
      by (subst xs) (simp only: filter_append)
    then show ?thesis
      by (simp only: a m z append_Nil append_Nil2)
  next
    case False
    then have ji: "j < i" by simp
    have "\<not> ?P c" if "c \<in> set xs" for c
      using less [OF ji assms(2)] by auto
    then have "filter ?P xs = []"
      by (simp add: filter_empty_conv)
    moreover have "drop i (take (Suc j) xs) = []"
      using False by simp
    ultimately show ?thesis by simp
  qed
qed

lemma find_single:
  "x \<in> set xs \<Longrightarrow> \<exists>i < length xs. find_from k [x] xs = Some (k + i) \<and> xs ! i = x"
proof (induction xs arbitrary: k)
  case Nil
  then show ?case by simp
next
  case (Cons c xs)
  show ?case
  proof (cases "c = x")
    case True
    then show ?thesis by (intro exI [of _ 0]) (simp add: startswith_def)
  next
    case False
    with Cons.prems have "x \<in> set xs" by simp
    from Cons.IH [OF this, of "Suc k"] obtain i where "i < length xs"
      "find_from (Suc k) [x] xs = Some (Suc k + i)" "xs ! i = x" by blast
    with False show ?thesis by (intro exI [of _ "Suc i"]) (simp add: startswith_def)
  qed
qed

lemma every_nth_one: "every_nth (Suc 0) 0 xs = xs"
  by (induction xs) simp_all

lemma alphabets_sorted: "sorted_wrt (<) ascii_uppercase" "sorted_wrt (<) ascii_lowercase"
  by (simp_all add: ascii_uppercase_def ascii_lowercase_def less_char_def)

lemma letters_in:
  assumes "x \<in> set al" "y \<in> set al" "sorted_wrt (<) al"
  shows "\<exists>i j. py_index al [x] = Inr i \<and> py_index al [y] = Inr j
          \<and> py_slice al i (j + 1) 1 = Inr (filter (\<lambda>c. x \<le> c \<and> c \<le> y) al)"
proof -
  from find_single [OF assms(1), of 0] obtain i where i: "i < length al"
    "find_from 0 [x] al = Some i" "al ! i = x" by auto
  from find_single [OF assms(2), of 0] obtain j where j: "j < length al"
    "find_from 0 [y] al = Some j" "al ! j = y" by auto
  from sorted_slice [OF assms(3) i(1) j(1)] i(3) j(3)
  have "py_slice al i (j + 1) 1 = Inr (filter (\<lambda>c. x \<le> c \<and> c \<le> y) al)"
    by (simp add: py_slice_def every_nth_one)
  with i(2) j(2) show ?thesis
    by (simp add: py_index_def)
qed

lemma letter_not_isdigit:
  "in_range (CHR ''A'') (CHR ''Z'') x \<or> in_range (CHR ''a'') (CHR ''z'') x \<Longrightarrow> \<not> py_isdigit [x]"
  by (auto simp: py_isdigit_def is_digit_def in_range_code)

lemma axis_letters:
  assumes "axis_ok (Letters x y)"
  shows "axis ([x] @ ''...'' @ [y]) = Inr (axis_values (Letters x y))"
proof -
  define al where "al = (if x \<in> set ascii_uppercase then ascii_uppercase else ascii_lowercase)"
  from assms have xy: "x \<in> set al" "y \<in> set al"
    using uppercase_members [of x] lowercase_members [of x] lowercase_members [of y]
      uppercase_members [of y]
    by (auto simp: in_range_code al_def)
  have letter: "in_range (CHR ''A'') (CHR ''Z'') x \<or> in_range (CHR ''a'') (CHR ''z'') x"
    "in_range (CHR ''A'') (CHR ''Z'') y \<or> in_range (CHR ''a'') (CHR ''z'') y"
    using assms uppercase_members lowercase_members by auto
  have "x \<in> set ascii_uppercase \<longleftrightarrow> in_range (CHR ''A'') (CHR ''Z'') x"
    using assms uppercase_members [of x] lowercase_members [of x] by (auto simp: in_range_code)
  then have al: "alphabet_of [x] = al"
    by (simp add: alphabet_of_def letter_isupper [OF letter(1)] al_def)
  have "sorted_wrt (<) al"
    using alphabets_sorted by (simp add: al_def)
  from letters_in [OF xy this] obtain i j where ij: "py_index al [x] = Inr i" "py_index al [y] = Inr j"
    "py_slice al i (j + 1) 1 = Inr (filter (\<lambda>c. x \<le> c \<and> c \<le> y) al)" by blast
  have sp: "py_split ([x] @ ''...'' @ [y]) ''...'' = [[x], [y]]"
    using letter_plain [OF letter(1)] letter_plain [OF letter(2)] by (intro split_bounds) auto
  have "axis ([x] @ ''...'' @ [y]) = Inr (map (\<lambda>c. [c]) (filter (\<lambda>c. x \<le> c \<and> c \<le> y) al))"
    unfolding axis_def sp using letter_not_isdigit [OF letter(1)] ij(3)
    by (simp add: al ij(1,2))
  then show ?thesis
    by (simp add: al_def)
qed

lemma axis_refines:
  "axis_ok a \<Longrightarrow> axis (axis_text a) = Inr (axis_values a)"
  using axis_numbers axis_letters by (cases a) simp_all

lemma axes_refine:
  "\<forall>(a, lit') \<in> set segs. axis_ok a \<and> brace_free lit' \<Longrightarrow>
   axes (map (\<lambda>(a, lit'). axis_text a) segs) = Inr (map (\<lambda>(a, lit'). axis_values a) segs)"
  by (induction segs) (auto simp: axis_refines)

section \<open>Grid templates\<close>

lemma no_bracket_no_range:
  assumes "\<not> startswith t ''[''"
  shows "re_match m0_rx t = None \<and> re_match m1_rx t = None"
  unfolding re_match_def m0_rx_def m1_rx_def seqs.simps
  using first_Lit_no [OF assms] by (simp add: first_Seq_none)

lemma grid_template_start:
  "segs \<noteq> [] \<Longrightarrow> \<not> startswith lit ''['' \<Longrightarrow> \<not> startswith (grid_template lit segs) ''[''"
  by (cases segs; cases lit) (auto simp: startswith_def)

lemma axis_values_plain:
  assumes "axis_ok a" "v \<in> set (axis_values a)"
  shows "brace_free v"
proof (cases a)
  case (Numbers s e)
  with assms(2) obtain i where "int (digits_val s) \<le> i" "v = py_str i"
    by auto
  then have "0 \<le> i" "v = py_str i"
    by simp_all
  then have "\<forall>c \<in> set v. is_digit c"
    using str_nat_digits [of "nat i"] by (simp add: py_str_def)
  then show ?thesis
    using digit_plain by (auto simp: brace_free_def)
next
  case (Letters x y)
  with assms obtain c where "v = [c]" "c \<in> set ascii_uppercase \<or> c \<in> set ascii_lowercase"
    by (auto split: if_splits)
  then show ?thesis
    using uppercase_members [of c] lowercase_members [of c] letter_plain [of c]
    by (auto simp: brace_free_def)
qed

lemma combo_plain:
  assumes "\<forall>(a, lit') \<in> set segs. axis_ok a \<and> brace_free lit'"
    and "combo \<in> set (product_lists (map (\<lambda>(a, lit'). axis_values a) segs))"
  shows "length combo = length segs \<and> (\<forall>v \<in> set combo. brace_free v)"
  using assms
proof (induction segs arbitrary: combo)
  case Nil
  then show ?case by simp
next
  case (Cons seg segs)
  obtain a lit' where seg: "seg = (a, lit')" by (cases seg)
  from Cons.prems(2) obtain v vs where c: "combo = v # vs" "v \<in> set (axis_values a)"
    "vs \<in> set (product_lists (map (\<lambda>(a, lit'). axis_values a) segs))"
    unfolding seg by auto
  from Cons.prems(1) seg have "axis_ok a" by simp
  from axis_values_plain [OF this c(2)] Cons.IH [OF _ c(3)] Cons.prems(1) c(1)
  show ?case by simp
qed

lemma product_lists_empty: "[] \<in> set ls \<Longrightarrow> product_lists ls = []"
  by (induction ls) auto

lemma later_grid:
  assumes "segs \<noteq> []" "brace_free lit"
    and "\<forall>(a, lit') \<in> set segs. axis_ok a \<and> brace_free lit'"
  shows "later_matchers (grid_template lit segs) =
           Inr (map (substitute lit segs) (product_lists (map (\<lambda>(a, lit'). axis_values a) segs)))"
proof -
  let ?t = "grid_template lit segs"
  let ?ls = "map (\<lambda>(a, lit'). axis_values a) segs"
  have braces: "re_findall brace_group_rx ?t = map (\<lambda>(a, lit'). axis_text a) segs"
    using assms(2,3) by (rule findall_grid)
  have "map (fill ?t) (product_lists ?ls) = map (substitute lit segs) (product_lists ?ls)"
  proof (rule map_cong [OF refl])
    fix combo assume "combo \<in> set (product_lists ?ls)"
    from combo_plain [OF assms(3) this] show "fill ?t combo = substitute lit segs combo"
      using assms(2,3) by (intro fill_grid) simp_all
  qed
  then have "grid ?t (map (\<lambda>(a, lit'). axis_text a) segs) =
               Inr (map (substitute lit segs) (product_lists ?ls))"
    by (simp add: grid_def axes_refine [OF assms(3)])
  then show ?thesis
    using assms(1) by (simp add: later_matchers_def braces)
qed

text \<open>
  Claim C4. A grid template is literal text without an opening brace interleaved with
  well-formed brace groups. The grid code of lines 75 to 91 lists, for every tuple of the
  Cartesian product of the axes in the order of the groups, the last axis running
  fastest, the template with each group replaced by its value and all other text kept.
  The length of the list is the product of the lengths of the axes, and one empty axis
  (an inverted range) makes it empty. This list is the result of the call whenever
  neither range pattern matches the template, in particular when the template does not
  begin with a bracket.
\<close>

theorem grid_expansion:
  assumes "segs \<noteq> []" "brace_free lit"
    and "\<forall>(a, lit') \<in> set segs. axis_ok a \<and> brace_free lit'"
  shows "later_matchers (grid_template lit segs) = Inr (grid_values lit segs)
       \<and> (re_match m0_rx (grid_template lit segs) = None
            \<and> re_match m1_rx (grid_template lit segs) = None
          \<longrightarrow> interpret_template_string (grid_template lit segs) = Some (Inr (grid_values lit segs)))
       \<and> (\<not> startswith lit ''[''
          \<longrightarrow> interpret_template_string (grid_template lit segs) = Some (Inr (grid_values lit segs)))
       \<and> grid_values lit segs =
           map (substitute lit segs) (product_lists (map (\<lambda>(a, lit'). axis_values a) segs))
       \<and> length (grid_values lit segs) = prod_list (map (\<lambda>(a, lit'). length (axis_values a)) segs)
       \<and> ((\<exists>(a, lit') \<in> set segs. axis_values a = []) \<longrightarrow> grid_values lit segs = [])"
proof -
  let ?t = "grid_template lit segs"
  let ?ls = "map (\<lambda>(a, lit'). axis_values a) segs"
  have later: "later_matchers ?t = Inr (grid_values lit segs)"
    unfolding grid_values_def using assms by (rule later_grid)
  have a: "interpret_template_string ?t = Some (Inr (grid_values lit segs))"
    if "re_match m0_rx ?t = None \<and> re_match m1_rx ?t = None"
    using that later by (simp add: interpret_template_string_def)
  have b: "interpret_template_string ?t = Some (Inr (grid_values lit segs))"
    if "\<not> startswith lit ''[''"
    using a no_bracket_no_range [OF grid_template_start [OF assms(1) that]] by blast
  have c: "length (grid_values lit segs) = prod_list (map (\<lambda>(a, lit'). length (axis_values a)) segs)"
    by (simp add: grid_values_def length_product_lists prod_list.eq_foldr comp_def case_prod_unfold)
  have d: "grid_values lit segs = []" if "\<exists>(a, lit') \<in> set segs. axis_values a = []"
  proof -
    from that have "[] \<in> set ?ls" by (force simp: image_iff)
    then have "product_lists ?ls = []" by (rule product_lists_empty)
    then show ?thesis by (simp add: grid_values_def)
  qed
  show ?thesis
    using later a b c d by (intro conjI impI) (simp_all add: grid_values_def)
qed

lemma sector_shape:
  "[(Letters (CHR ''A'') (CHR ''B''), []), (Numbers ''1'' ''2'', [])] \<noteq> []"
  "brace_free ''Sector''"
  "\<forall>(a, lit') \<in> set [(Letters (CHR ''A'') (CHR ''B''), []), (Numbers ''1'' ''2'', [])].
      axis_ok a \<and> brace_free lit'"
  "\<not> startswith ''Sector'' ''[''"
  by (simp_all add: startswith_def brace_free_def digits_def is_digit_def in_range_code ascii_uppercase_def)

lemma sector_values:
  "grid_values ''Sector'' [(Letters (CHR ''A'') (CHR ''B''), []), (Numbers ''1'' ''2'', [])] =
   [''SectorA1'', ''SectorA2'', ''SectorB1'', ''SectorB2'']"
  by code_simp

lemma inverted_shape:
  "[(Numbers ''3'' ''1'', []), (Letters (CHR ''A'') (CHR ''B''), ''y'')] \<noteq> []"
  "brace_free ''x''"
  "\<forall>(a, lit') \<in> set [(Numbers ''3'' ''1'', []), (Letters (CHR ''A'') (CHR ''B''), ''y'')].
      axis_ok a \<and> brace_free lit'"
  "\<not> startswith ''x'' ''[''"
  "\<exists>(a, lit') \<in> set [(Numbers ''3'' ''1'', []), (Letters (CHR ''A'') (CHR ''B''), ''y'')].
      axis_values a = []"
  by (simp_all add: startswith_def brace_free_def digits_def is_digit_def in_range_code
      ascii_uppercase_def digits_val_def digit_val_def)

theorem grid_expansion_witness:
  "interpret_template_string ''Sector{A...B}{1...2}'' =
     Some (Inr [''SectorA1'', ''SectorA2'', ''SectorB1'', ''SectorB2''])
   \<and> interpret_template_string ''x{3...1}{A...B}y'' = Some (Inr [])"
proof
  note s = grid_expansion [OF sector_shape(1-3)]
  from s [THEN conjunct2, THEN conjunct2, THEN conjunct1] sector_shape(4)
  show "interpret_template_string ''Sector{A...B}{1...2}'' =
     Some (Inr [''SectorA1'', ''SectorA2'', ''SectorB1'', ''SectorB2''])"
    unfolding sector_values by simp
  note i = grid_expansion [OF inverted_shape(1-3)]
  from i [THEN conjunct2, THEN conjunct2, THEN conjunct2, THEN conjunct2, THEN conjunct2]
    inverted_shape(5)
  have "grid_values ''x'' [(Numbers ''3'' ''1'', []), (Letters (CHR ''A'') (CHR ''B''), ''y'')] = []"
    by blast
  with i [THEN conjunct2, THEN conjunct2, THEN conjunct1] inverted_shape(4)
  show "interpret_template_string ''x{3...1}{A...B}y'' = Some (Inr [])" by simp
qed

section \<open>Zero and signed steps\<close>

text \<open>
  The loop of lines 63 to 65 has no guard of its own: run with the step 0 from a start
  that is not after the end, it never returns, and neither does the time-of-day branch
  (lines 60 to 66) when it is entered with that step. A step token in the digits
  \<^verbatim>\<open>0\<close> to \<^verbatim>\<open>9\<close> does not reach it: the class of the end bound takes the colon and the
  digits before the step group can (lemma \<open>prefixed_step_rejected\<close>).
\<close>

lemma time_loop_zero_step_aux:
  "time_loop prefix step e s out = Some y \<Longrightarrow>
   step = 0 \<Longrightarrow> datetime_min \<le> s \<Longrightarrow> s < datetime_end \<Longrightarrow> s \<le> e \<Longrightarrow> False"
proof -
  assume "time_loop prefix step e s out = Some y"
  then have "\<not> (step = 0 \<and> datetime_min \<le> s \<and> s < datetime_end \<and> s \<le> e)"
    by (rule time_loop.raw_induct
          [rotated, where P = "\<lambda>prefix step e s out y. \<not> (step = 0 \<and> datetime_min \<le> s \<and> s < datetime_end \<and> s \<le> e)"])
       (auto split: if_splits)
  then show "step = 0 \<Longrightarrow> datetime_min \<le> s \<Longrightarrow> s < datetime_end \<Longrightarrow> s \<le> e \<Longrightarrow> False"
    by simp
qed

lemma time_loop_zero_step:
  assumes "datetime_min \<le> s" "s < datetime_end" "s \<le> e"
  shows "time_loop prefix 0 e s out = None"
proof (cases "time_loop prefix 0 e s out")
  case None
  then show ?thesis .
next
  case (Some y)
  from time_loop_zero_step_aux [OF this refl assms] show ?thesis ..
qed

lemma ten_and_twelve: "strptime ''10:00'' = Inr 600" "strptime ''12:00'' = Inr 720"
  by code_simp+

lemma time_range_zero_step: "time_range ''R'' ''10:00'' ''12:00'' 0 = None"
  using time_loop_zero_step [of 600 720 "''R''" "[]"]
  by (simp add: time_range_def ten_and_twelve datetime_min_def datetime_end_def)










section \<open>Inverted numeric ranges\<close>

text \<open>
  Claim C7. A numeric range whose start is above its end expands to the empty sequence
  when it is a bare range, with no step token or a positive one, and when it is a prefixed
  range without a step token. A prefixed numeric range with a step token does not: the
  class of the end bound takes the colon and the digits of the step into the bound, the
  step group stays empty, and \<^verbatim>\<open>int\<close> fails on the bound.
\<close>

theorem inverted_range_prefixed_step:
  assumes "spaces ws" "spaces ws'" "digits s" "digits e" "prefix_text p"
    and "digits_val e < digits_val s"
  shows "(step_token step \<and> 0 < step_value step \<longrightarrow>
            interpret_template_string (bare_template ws s e step ws' @ tail) = Some (Inr []))
       \<and> interpret_template_string (prefixed_template p ws s e None @ tail) = Some (Inr [])
       \<and> (digits d \<and> 0 < step_value (Some d) \<longrightarrow>
            interpret_template_string (prefixed_template p ws s e (Some d) @ tail)
              = Some (Inl ValueError))"
proof (intro conjI impI)
  have empty: "py_range (int (digits_val s)) (int (digits_val e) + 1) k = Inr []" if "0 < k" for k
    using assms(6) that by (intro py_range_empty) simp_all
  {
    assume a: "step_token step \<and> 0 < step_value step"
    then show "interpret_template_string (bare_template ws s e step ws' @ tail) = Some (Inr [])"
      using interpret_bare [OF assms(1,3,4,2), of step tail] bare_range_value [OF assms(3,4), of step]
        empty [of "step_value step"]
      by simp
  next
    have "numeric_range (py_strip p) s e 1 = Inr []"
      using numeric_range_digits [OF assms(3,4), of 1 "py_strip p"] empty [of 1] by simp
    then show "interpret_template_string (prefixed_template p ws s e None @ tail) = Some (Inr [])"
      using interpret_prefixed [OF assms(5,1) digits_bound_text [OF assms(3)]
          digits_bound_text [OF assms(4)], of tail] digits_py_isdigit [OF assms(3)]
      by (simp add: prefixed_template_def step_suffix_def)
  next
    assume "digits d \<and> 0 < step_value (Some d)"
    then have "digits d" ..
    moreover have "range_bounds s e"
      using assms(3,4) by (simp add: range_bounds_def)
    ultimately show "interpret_template_string (prefixed_template p ws s e (Some d) @ tail)
              = Some (Inl ValueError)"
      using assms(5,1) by (intro prefixed_step_rejected)
  }
qed

theorem inverted_range_prefixed_step_witness:
  "interpret_template_string ''[5...1:2]'' = Some (Inr [])
   \<and> interpret_template_string ''[Room,5...1]'' = Some (Inr [])
   \<and> interpret_template_string ''[Room,5...1:2]'' = Some (Inl ValueError)"
  using inverted_range_prefixed_step [OF shape_trivia(1,1) digits_five_one_two(1,2) shape_trivia(3),
      of "Some ''2''" "[]" "''2''"]
    digits_five_one_two(3)
  by (simp add: step_token_def step_value_def digits_val_def digit_val_def bare_template_def
      prefixed_template_def step_suffix_def)

section \<open>The index and the element\<close>

lemma py_eval_at_index:
  assumes "parse_expr cond = Some e" "names_of e \<subseteq> {''i''}" "x \<noteq> ''i''"
  shows "\<exists>res. eval_expr e (index_namespace k) = Some res
           \<and> py_eval other cond (ns(''i'' := Bound (VInt (int k)), x := Bound v)) = res"
proof -
  let ?a = "ns(''i'' := Bound (VInt (int k)), x := Bound v)"
  have "\<forall>y \<in> names_of e. \<exists>u. index_namespace k y = Bound u \<and> \<not> is_str u"
    using assms(2) by (auto simp: index_namespace_def)
  from eval_expr_modelled [OF this] obtain res where res: "eval_expr e (index_namespace k) = Some res"
    by blast
  have "eval_expr e ?a = eval_expr e (index_namespace k)"
    using assms(2,3) by (intro eval_expr_coincidence) (auto simp: index_namespace_def)
  with res have "py_eval other cond ?a = res"
    unfolding py_eval_def assms(1) by simp
  with res show ?thesis by blast
qed

lemma remove_loop_positions:
  assumes "parse_expr cond = Some e" "names_of e \<subseteq> {''i''}"
  shows "remove_loop (py_eval other) (Some cond) amb k names =
           filter (\<lambda>(k, name). holds_at e k) (enumerate k names)"
proof (induction names arbitrary: k)
  case Nil
  show ?case by simp
next
  case (Cons name names)
  from py_eval_at_index [OF assms, of "''name''" k other "amb k" "VStr name"] obtain res where
    "eval_expr e (index_namespace k) = Some res"
    "py_eval other cond ((amb k)(''i'' := Bound (VInt (int k)), ''name'' := Bound (VStr name))) = res"
    by auto
  then show ?case
    using Cons.IH [of "Suc k"] parse_expr_nonempty [OF assms(1)]
    by (cases res) (simp_all add: holds_at_def)
qed

lemma preview_loop_positions:
  assumes "parse_expr cond = Some e" "names_of e \<subseteq> {''i''}"
    and "\<forall>j \<in> {k..<k + length names}. \<not> raises_at e j"
  shows "preview_loop (py_eval other) (Some cond) amb k names =
           Inr (filter (\<lambda>(k, nm). holds_at e k) (enumerate k names))"
  using assms(3)
proof (induction names arbitrary: k)
  case Nil
  show ?case by simp
next
  case (Cons nm names)
  from py_eval_at_index [OF assms(1,2), of "''nm''" k other "amb k" "VStr nm"] obtain res where
    res: "eval_expr e (index_namespace k) = Some res"
    "py_eval other cond ((amb k)(''i'' := Bound (VInt (int k)), ''nm'' := Bound (VStr nm))) = res"
    by auto
  from Cons.prems have "\<not> raises_at e k" by simp
  with res(1) obtain v where v: "res = Inr v"
    by (cases res) (simp_all add: raises_at_def)
  have "\<forall>j \<in> {Suc k..<Suc k + length names}. \<not> raises_at e j"
    using Cons.prems by simp
  from Cons.IH [OF this] res v show ?case
    using parse_expr_nonempty [OF assms(1)] by (simp add: holds_at_def)
qed

text \<open>
  Claim C8, as the code has it. Both loops number the elements from 1 and bind that
  number to \<^verbatim>\<open>i\<close>. For a condition of the index language that names only \<^verbatim>\<open>i\<close>, the elements
  kept are those whose position satisfies the condition, whatever the elements are and
  whatever else the namespace holds (in \<^verbatim>\<open>preview_template\<close> as long as the condition
  raises at no position). On the sequence that \<^verbatim>\<open>[1...6]\<close> expands to, the condition
  \<^verbatim>\<open>i % 2 == 0\<close> keeps the elements at the indices 2, 4 and 6, the names \<^verbatim>\<open>2\<close>, \<^verbatim>\<open>4\<close>, \<^verbatim>\<open>6\<close>, in
  that order. The index is not the only variable the condition can read: the element
  itself is bound too, to \<^verbatim>\<open>name\<close> or \<^verbatim>\<open>nm\<close>.
\<close>

theorem index_bound_to_position:
  assumes "parse_expr cond = Some e" "names_of e \<subseteq> {''i''}"
  shows "remove_channels_filter (py_eval other) (Some cond) amb names =
           filter (\<lambda>(k, name). holds_at e k) (enumerate 1 names)
       \<and> ((\<forall>k \<in> {1..length names}. \<not> raises_at e k) \<longrightarrow>
            preview_template_filter (py_eval other) (Some cond) amb names =
              Inr (filter (\<lambda>(k, nm). holds_at e k) (enumerate 1 names)))
       \<and> interpret_template_string ''[1...6]'' = Some (Inr [''1'', ''2'', ''3'', ''4'', ''5'', ''6''])
       \<and> remove_channels_filter (py_eval other) (Some ''i % 2 == 0'') amb
           [''1'', ''2'', ''3'', ''4'', ''5'', ''6''] = [(2, ''2''), (4, ''4''), (6, ''6'')]
       \<and> preview_template_filter (py_eval other) (Some ''i % 2 == 0'') amb
           [''1'', ''2'', ''3'', ''4'', ''5'', ''6''] = Inr [(2, ''2''), (4, ''4''), (6, ''6'')]"
proof (intro conjI impI)
  show "remove_channels_filter (py_eval other) (Some cond) amb names =
           filter (\<lambda>(k, name). holds_at e k) (enumerate 1 names)"
    unfolding remove_channels_filter_def using assms by (rule remove_loop_positions)
  {
    assume "\<forall>k \<in> {1..length names}. \<not> raises_at e k"
    then have "\<forall>j \<in> {1..<1 + length names}. \<not> raises_at e j"
      by simp
    with assms show "preview_template_filter (py_eval other) (Some cond) amb names =
              Inr (filter (\<lambda>(k, nm). holds_at e k) (enumerate 1 names))"
      unfolding preview_template_filter_def by (rule preview_loop_positions)
  }
  show "interpret_template_string ''[1...6]'' = Some (Inr [''1'', ''2'', ''3'', ''4'', ''5'', ''6''])"
    by (rule one_to_six)
  show "remove_channels_filter (py_eval other) (Some ''i % 2 == 0'') amb
           [''1'', ''2'', ''3'', ''4'', ''5'', ''6''] = [(2, ''2''), (4, ''4''), (6, ''6'')]"
    by (simp add: remove_channels_filter_def eval_even)
  show "preview_template_filter (py_eval other) (Some ''i % 2 == 0'') amb
           [''1'', ''2'', ''3'', ''4'', ''5'', ''6''] = Inr [(2, ''2''), (4, ''4''), (6, ''6'')]"
    by (simp add: preview_template_filter_def eval_even)
qed

lemma parse_name: "parse_expr ''name'' = Some (Name ''name'')"
  by code_simp

theorem element_name_counterexample:
  "remove_channels_filter (py_eval (\<lambda>t ns. Inl NameError)) (Some ''name'') (\<lambda>k x. Unbound)
     [''1'', [], ''3''] = [(1, ''1''), (3, ''3'')]
   \<and> remove_channels_filter (py_eval (\<lambda>t ns. Inl NameError)) (Some ''name'') (\<lambda>k x. Unbound)
     [[], ''2'', ''3''] = [(2, ''2''), (3, ''3'')]"
  by (simp add: remove_channels_filter_def py_eval_def parse_name)

lemma even_holds:
  "holds_at (Cmp Eq (Bin Mod (Name ''i'') (Num 2)) (Num 0)) k = (int k mod 2 = 0)"
  "\<not> raises_at (Cmp Eq (Bin Mod (Name ''i'') (Num 2)) (Num 0)) k"
  by (simp_all add: holds_at_def raises_at_def index_namespace_def arith_def compare_def py_equal_def)

theorem index_bound_to_position_witness:
  "remove_channels_filter (py_eval (\<lambda>t ns. Inl NameError)) (Some ''i % 2 == 0'') (\<lambda>k x. Unbound)
     [''w'', ''x'', ''y'', ''z''] = [(2, ''x''), (4, ''z'')]
   \<and> preview_template_filter (py_eval (\<lambda>t ns. Inl NameError)) (Some ''i % 2 == 0'') (\<lambda>k x. Unbound)
     [''w'', ''x'', ''y'', ''z''] = Inr [(2, ''x''), (4, ''z'')]"
  using index_bound_to_position [OF parse_even names_even,
      of "\<lambda>t ns. Inl NameError" "\<lambda>k x. Unbound" "[''w'', ''x'', ''y'', ''z'']"]
  by (simp add: even_holds)

section \<open>Ill-formed bounds of a prefixed range\<close>

lemma letter_range_found:
  assumes "py_index (alphabet_of s) s = Inr i" "py_index (alphabet_of s) e = Inr j"
  shows "letter_range prefix s e 1 =
           Inr (map (\<lambda>c. prefix @ [c]) (drop i (take (j + 1) (alphabet_of s))))"
  using assms by (simp add: letter_range_def py_slice_def every_nth_one)

lemma letter_range_not_found:
  assumes "py_index (alphabet_of s) e = Inl ValueError"
  shows "letter_range prefix s e step = Inl ValueError"
proof (cases "py_index (alphabet_of s) s")
  case (Inl err)
  then have "err = ValueError"
    by (auto simp: py_index_def split: option.splits)
  with Inl show ?thesis by (simp add: letter_range_def)
next
  case (Inr i)
  with assms show ?thesis by (simp add: letter_range_def)
qed

lemma later_no_brace:
  assumes "brace_free t"
  shows "\<exists>out. later_matchers t = Inr out"
proof -
  have "re_findall brace_group_rx t = []"
    by (subst re_findall.simps) (simp add: search_brace_free [OF assms])
  then show ?thesis
    by (simp add: later_matchers_def)
qed

lemma prefixed_brace_free:
  assumes "spaces ws" "bound_text s" "bound_text e" "brace_free (p @ tail)"
  shows "brace_free (''['' @ p @ '','' @ ws @ s @ ''...'' @ e @ '']'' @ tail)"
proof -
  have "is_space c \<Longrightarrow> c \<noteq> CHR ''{''" for c
    by (auto simp: is_space_def in_range_code)
  moreover have "bound_char c \<Longrightarrow> c \<noteq> CHR ''{''" for c
    by (auto simp: bound_char_def in_range_code)
  ultimately have "CHR ''{'' \<notin> set ws" "CHR ''{'' \<notin> set s" "CHR ''{'' \<notin> set e"
    using assms(1-3) unfolding spaces_def bound_text_def by blast+
  with assms(4) show ?thesis
    by (simp add: brace_free_def)
qed

text \<open>
  Claim C1, as the code has it. A template of the prefixed-range shape whose start bound is
  a number, contains a colon or is one letter is bound to that sub-variant, and no later
  matcher is tried. The call fails with \<^verbatim>\<open>ValueError\<close> when the start is a number and the
  end is not, when the start contains a colon and one of the bounds is not a time of day,
  and when the start is a letter and \<^verbatim>\<open>index\<close> does not find the end bound in the alphabet
  of the start's case (a letter of the other case, for instance). Two kinds of ill-formed
  content do not fail. After a letter, an end bound of several letters that \<^verbatim>\<open>index\<close>
  finds as a run of the alphabet is accepted, and the range ends where the run starts. A
  start bound of none of the three shapes sends the template on to the later matchers
  (grid, literal list, fallback), and the call returns what they return: a list when the
  template has no opening brace.
\<close>

theorem ill_formed_bound_or_later_matcher:
  assumes "prefix_text p" "spaces ws" "bound_text s" "bound_text e"
  shows "(digits s \<and> \<not> digits e \<longrightarrow>
            interpret_template_string (''['' @ p @ '','' @ ws @ s @ ''...'' @ e @ '']'' @ tail)
              = Some (Inl ValueError))
       \<and> (CHR '':'' \<in> set s \<and> \<not> (time_text s \<and> time_text e) \<longrightarrow>
            interpret_template_string (''['' @ p @ '','' @ ws @ s @ ''...'' @ e @ '']'' @ tail)
              = Some (Inl ValueError))
       \<and> (letter_text s \<and> py_index (alphabet_of s) e = Inl ValueError \<longrightarrow>
            interpret_template_string (''['' @ p @ '','' @ ws @ s @ ''...'' @ e @ '']'' @ tail)
              = Some (Inl ValueError))
       \<and> (letter_text s \<and> letter_text e \<and> py_isupper s \<noteq> py_isupper e \<longrightarrow>
            interpret_template_string (''['' @ p @ '','' @ ws @ s @ ''...'' @ e @ '']'' @ tail)
              = Some (Inl ValueError))
       \<and> (letter_text s \<and> py_index (alphabet_of s) s = Inr i \<and> py_index (alphabet_of s) e = Inr j \<longrightarrow>
            interpret_template_string (''['' @ p @ '','' @ ws @ s @ ''...'' @ e @ '']'' @ tail)
              = Some (Inr (map (\<lambda>c. py_strip p @ [c]) (drop i (take (j + 1) (alphabet_of s))))))
       \<and> (\<not> range_start s \<longrightarrow>
            interpret_template_string (''['' @ p @ '','' @ ws @ s @ ''...'' @ e @ '']'' @ tail)
              = Some (later_matchers (''['' @ p @ '','' @ ws @ s @ ''...'' @ e @ '']'' @ tail)))
       \<and> (\<not> range_start s \<and> brace_free (p @ tail) \<longrightarrow>
            (\<exists>out. interpret_template_string (''['' @ p @ '','' @ ws @ s @ ''...'' @ e @ '']'' @ tail)
               = Some (Inr out)))"
proof (intro conjI impI)
  note i = interpret_prefixed [OF assms, of tail]
  {
    assume a: "digits s \<and> \<not> digits e"
    then have "numeric_range (py_strip p) s e 1 = Inl ValueError"
      by (simp add: numeric_range_def py_int_digits py_int_not_digits [OF assms(4)])
    with a show "interpret_template_string (''['' @ p @ '','' @ ws @ s @ ''...'' @ e @ '']'' @ tail)
              = Some (Inl ValueError)"
      using i digits_py_isdigit [of s] by simp
  next
    assume a: "CHR '':'' \<in> set s \<and> \<not> (time_text s \<and> time_text e)"
    then show "interpret_template_string (''['' @ p @ '','' @ ws @ s @ ''...'' @ e @ '']'' @ tail)
              = Some (Inl ValueError)"
      using i colon_not_isdigit [of s] time_range_bad [of s e "py_strip p" 1] by simp
  next
    assume a: "letter_text s \<and> py_index (alphabet_of s) e = Inl ValueError"
    then show "interpret_template_string (''['' @ p @ '','' @ ws @ s @ ''...'' @ e @ '']'' @ tail)
              = Some (Inl ValueError)"
      using i letter_text_start [of s] letter_range_not_found [of s e "py_strip p" 1] by simp
  next
    assume a: "letter_text s \<and> letter_text e \<and> py_isupper s \<noteq> py_isupper e"
    then show "interpret_template_string (''['' @ p @ '','' @ ws @ s @ ''...'' @ e @ '']'' @ tail)
              = Some (Inl ValueError)"
      using i letter_text_start [of s] letter_range_mismatch [of s e "py_strip p" 1] by simp
  next
    assume a: "letter_text s \<and> py_index (alphabet_of s) s = Inr i \<and> py_index (alphabet_of s) e = Inr j"
    then show "interpret_template_string (''['' @ p @ '','' @ ws @ s @ ''...'' @ e @ '']'' @ tail)
              = Some (Inr (map (\<lambda>c. py_strip p @ [c]) (drop i (take (j + 1) (alphabet_of s)))))"
      using i letter_text_start [of s] letter_range_found [of s i e j "py_strip p"] by simp
  next
    assume "\<not> range_start s"
    then show "interpret_template_string (''['' @ p @ '','' @ ws @ s @ ''...'' @ e @ '']'' @ tail)
              = Some (later_matchers (''['' @ p @ '','' @ ws @ s @ ''...'' @ e @ '']'' @ tail))"
      using i by (auto simp: range_start_def)
  next
    assume a: "\<not> range_start s \<and> brace_free (p @ tail)"
    then have "brace_free (p @ tail)" ..
    from later_no_brace [OF prefixed_brace_free [OF assms(2-4) this]] obtain out where
      "later_matchers (''['' @ p @ '','' @ ws @ s @ ''...'' @ e @ '']'' @ tail) = Inr out" by blast
    moreover from a have "interpret_template_string (''['' @ p @ '','' @ ws @ s @ ''...'' @ e @ '']'' @ tail)
              = Some (later_matchers (''['' @ p @ '','' @ ws @ s @ ''...'' @ e @ '']'' @ tail))"
      using i by (auto simp: range_start_def)
    ultimately show "\<exists>out. interpret_template_string (''['' @ p @ '','' @ ws @ s @ ''...'' @ e @ '']'' @ tail)
               = Some (Inr out)"
      by simp
  }
qed

theorem fall_through_counterexample:
  "re_match m1_rx ''[Room,AB...CD]'' = Some ([(3, ''CD''), (2, ''AB''), (1, ''Room'')], [])
   \<and> interpret_template_string ''[Room,AB...CD]'' = Some (Inr [''Room'', ''AB...CD''])"
proof
  show "re_match m1_rx ''[Room,AB...CD]'' = Some ([(3, ''CD''), (2, ''AB''), (1, ''Room'')], [])"
    by code_simp
  show "interpret_template_string ''[Room,AB...CD]'' = Some (Inr [''Room'', ''AB...CD''])"
    by code_simp
qed

lemma room_shape: "prefix_text ''Room''" "bound_text ''AB''" "bound_text ''CD''" "\<not> range_start ''AB''"
  "bound_text ''1''" "bound_text ''x''" "digits ''1''" "\<not> digits ''x''"
  by (simp_all add: prefix_text_def prefix_char_def bound_text_def bound_char_def range_start_def
      py_isdigit_def py_isalpha_def digits_def is_digit_def in_range_code)

lemma later_room: "later_matchers ''[Room,AB...CD]'' = Inr [''Room'', ''AB...CD'']"
  by code_simp

lemma run_shape: "prefix_text ''R''" "bound_text ''a''" "bound_text ''bc''" "letter_text ''a''"
  "bound_text ''B''"
  by (simp_all add: prefix_text_def prefix_char_def bound_text_def bound_char_def letter_text_def
      in_range_code)

lemma run_index:
  "py_index (alphabet_of ''a'') ''a'' = Inr 0" "py_index (alphabet_of ''a'') ''bc'' = Inr 1"
  "py_index (alphabet_of ''a'') ''B'' = Inl ValueError"
  "map (\<lambda>c. py_strip ''R'' @ [c]) (drop 0 (take (1 + 1) (alphabet_of ''a''))) = [''Ra'', ''Rb'']"
  by code_simp+

theorem ill_formed_bound_or_later_matcher_witness:
  "interpret_template_string ''[Room,1...x]'' = Some (Inl ValueError)
   \<and> interpret_template_string ''[R,a...B]'' = Some (Inl ValueError)
   \<and> interpret_template_string ''[R,a...bc]'' = Some (Inr [''Ra'', ''Rb''])
   \<and> interpret_template_string ''[Room,AB...CD]'' = Some (Inr [''Room'', ''AB...CD''])"
  using ill_formed_bound_or_later_matcher [OF room_shape(1) shape_trivia(1) room_shape(5,6), of "[]"]
    ill_formed_bound_or_later_matcher [OF run_shape(1) shape_trivia(1) run_shape(2,5), of "[]"]
    ill_formed_bound_or_later_matcher [OF run_shape(1) shape_trivia(1) run_shape(2,3), of "[]" 0 1]
    ill_formed_bound_or_later_matcher [OF room_shape(1) shape_trivia(1) room_shape(2,3), of "[]"]
    room_shape(4,7,8) run_shape(4) run_index
  by (simp add: later_room)

end
